theory Spec2Isabelle
  imports Complex_Main
begin

section \<open>Calendar arithmetic\<close>

text \<open>
  The day and year arithmetic of ECMAScript time values: days since the epoch, the
  Gregorian leap rule, the day on which a year starts and \<open>MakeDay\<close>. All months
  are numbered from 0. \<open>YearFromDay\<close> is the largest year that starts on or before
  the day, found by searching upwards from a year that is not too late.
\<close>

definition msPerDay :: int where "msPerDay = 86400000"

definition Day :: "int \<Rightarrow> int" where "Day t = t div msPerDay"
definition TimeWithinDay :: "int \<Rightarrow> int" where "TimeWithinDay t = t mod msPerDay"

definition DayFromYear :: "int \<Rightarrow> int" where
  "DayFromYear y = 365 * (y - 1970) + (y - 1969) div 4 - (y - 1901) div 100 + (y - 1601) div 400"

definition InLeapYear :: "int \<Rightarrow> bool" where
  "InLeapYear y = (y mod 4 = 0 \<and> (y mod 100 \<noteq> 0 \<or> y mod 400 = 0))"

definition leapDays :: "int \<Rightarrow> int" where
  "leapDays y = (if InLeapYear y then 1 else 0)"

definition daysBeforeMonth :: "int \<Rightarrow> int \<Rightarrow> int" where
  "daysBeforeMonth y m =
     (if m = 0 then 0 else if m = 1 then 31
      else leapDays y +
        (if m = 2 then 59 else if m = 3 then 90 else if m = 4 then 120
         else if m = 5 then 151 else if m = 6 then 181 else if m = 7 then 212
         else if m = 8 then 243 else if m = 9 then 273 else if m = 10 then 304 else 334))"

definition MakeDay :: "int \<Rightarrow> int \<Rightarrow> int \<Rightarrow> int" where
  "MakeDay year month dt =
     (let ym = year + month div 12; mn = month mod 12
      in DayFromYear ym + daysBeforeMonth ym mn + dt - 1)"

function findYear :: "int \<Rightarrow> int \<Rightarrow> int" where
  "findYear d y = (if DayFromYear (y + 1) \<le> d then findYear d (y + 1) else y)"
  by pat_completeness auto

definition YearFromDay :: "int \<Rightarrow> int" where
  "YearFromDay d = findYear d (1970 + (if 0 \<le> d then d div 366 else d div 365))"

definition DayWithinYear :: "int \<Rightarrow> int" where
  "DayWithinYear d = d - DayFromYear (YearFromDay d)"

definition MonthFromDay :: "int \<Rightarrow> int" where
  "MonthFromDay d =
     (let w = DayWithinYear d; l = leapDays (YearFromDay d)
      in if w < 31 then 0 else if w < 59 + l then 1 else if w < 90 + l then 2
         else if w < 120 + l then 3 else if w < 151 + l then 4 else if w < 181 + l then 5
         else if w < 212 + l then 6 else if w < 243 + l then 7 else if w < 273 + l then 8
         else if w < 304 + l then 9 else if w < 334 + l then 10 else 11)"

definition DateFromDay :: "int \<Rightarrow> int" where
  "DateFromDay d = DayWithinYear d - daysBeforeMonth (YearFromDay d) (MonthFromDay d) + 1"

subsection \<open>Date objects\<close>

text \<open>
  A JavaScript \<^verbatim>\<open>Date\<close> holds a time value: an integral number of milliseconds since
  the epoch, or NaN for an invalid date. \<open>None\<close> is the invalid date. Time values
  beyond 8.64e15 ms in absolute value do not exist: \<open>TimeClip\<close> maps them to NaN.
\<close>

type_synonym Date = "int option"

definition maxTime :: int where "maxTime = 8640000000000000"

definition TimeClip :: "int \<Rightarrow> Date" where
  "TimeClip t = (if maxTime < \<bar>t\<bar> then None else Some t)"

subsection \<open>The local time zone\<close>

text \<open>
  The \<^verbatim>\<open>Date\<close> methods that the store and date-fns use read and write local
  calendar fields, so the time zone of the engine is a parameter of every one of
  them. A time zone is the offset of local time from UTC, in milliseconds, that is
  in force before the first change of the clocks, and the changes of the clocks in
  chronological order, each with the time value at which it happens and the offset
  in force from then on. The start and the end of daylight saving time are such
  changes. Every offset is less than a day in absolute value and two changes are at
  least two days apart.
\<close>

fun wellFormed :: "int \<Rightarrow> (int \<times> int) list \<Rightarrow> bool" where
  "wellFormed off [] = (\<bar>off\<bar> < msPerDay)"
| "wellFormed off [(T, off')] = (\<bar>off\<bar> < msPerDay \<and> \<bar>off'\<bar> < msPerDay)"
| "wellFormed off ((T, off') # (T', off'') # rest) =
     (\<bar>off\<bar> < msPerDay \<and> T + 2 * msPerDay \<le> T' \<and> wellFormed off' ((T', off'') # rest))"

typedef Zone = "{z :: int \<times> (int \<times> int) list. wellFormed (fst z) (snd z)}"
  by (rule exI[of _ "(0, [])"]) (simp add: msPerDay_def)

definition makeZone :: "int \<Rightarrow> (int \<times> int) list \<Rightarrow> Zone" where
  "makeZone off changes = Abs_Zone (off, changes)"

definition initialOffset :: "Zone \<Rightarrow> int" where
  "initialOffset z = fst (Rep_Zone z)"

definition changes :: "Zone \<Rightarrow> (int \<times> int) list" where
  "changes z = snd (Rep_Zone z)"

text \<open>
  \<open>offsetAt\<close> is the offset in force at a time value. \<open>offsetFor\<close> is the offset
  with which a local time is read: a local time that the clocks show twice, because
  they were set back, is the first of the two, and a local time that the clocks
  skip, because they were set forward, is read with the offset in force before the
  change. \<open>LocalTime\<close> and \<open>UTC\<close> are the two conversions of ECMAScript.
\<close>

fun offsetAt :: "int \<Rightarrow> (int \<times> int) list \<Rightarrow> int \<Rightarrow> int" where
  "offsetAt off [] t = off"
| "offsetAt off ((T, off') # rest) t = (if t < T then off else offsetAt off' rest t)"

fun offsetFor :: "int \<Rightarrow> (int \<times> int) list \<Rightarrow> int \<Rightarrow> int" where
  "offsetFor off [] t = off"
| "offsetFor off ((T, off') # rest) t =
     (if t < T + max off off' then off else offsetFor off' rest t)"

definition LocalTime :: "Zone \<Rightarrow> int \<Rightarrow> int" where
  "LocalTime tz t = t + offsetAt (initialOffset tz) (changes tz) t"

definition UTC :: "Zone \<Rightarrow> int \<Rightarrow> int" where
  "UTC tz t = t - offsetFor (initialOffset tz) (changes tz) t"

definition MakeTime :: "int \<Rightarrow> int \<Rightarrow> int \<Rightarrow> int \<Rightarrow> int" where
  "MakeTime h m s ms = h * 3600000 + m * 60000 + s * 1000 + ms"

definition MakeDate :: "int \<Rightarrow> int \<Rightarrow> int" where
  "MakeDate day time = day * msPerDay + time"

definition YearFromTime :: "int \<Rightarrow> int" where "YearFromTime t = YearFromDay (Day t)"
definition MonthFromTime :: "int \<Rightarrow> int" where "MonthFromTime t = MonthFromDay (Day t)"
definition DateFromTime :: "int \<Rightarrow> int" where "DateFromTime t = DateFromDay (Day t)"

text \<open>\<^verbatim>\<open>new Date(value)\<close> for a number; \<open>None\<close> is a non-finite number.\<close>

definition newDate :: "int option \<Rightarrow> Date" where
  "newDate v = (case v of None \<Rightarrow> None | Some t \<Rightarrow> TimeClip t)"

definition getTime :: "Date \<Rightarrow> int option" where
  "getTime d = d"

definition getFullYear :: "Zone \<Rightarrow> Date \<Rightarrow> int option" where
  "getFullYear tz d = map_option (\<lambda>t. YearFromTime (LocalTime tz t)) d"

definition getMonth :: "Zone \<Rightarrow> Date \<Rightarrow> int option" where
  "getMonth tz d = map_option (\<lambda>t. MonthFromTime (LocalTime tz t)) d"

definition getDate :: "Zone \<Rightarrow> Date \<Rightarrow> int option" where
  "getDate tz d = map_option (\<lambda>t. DateFromTime (LocalTime tz t)) d"

definition setDate :: "Zone \<Rightarrow> Date \<Rightarrow> int \<Rightarrow> Date" where
  "setDate tz d dt =
     (case d of None \<Rightarrow> None
      | Some t0 \<Rightarrow>
          let t = LocalTime tz t0;
              newD = MakeDate (MakeDay (YearFromTime t) (MonthFromTime t) dt) (TimeWithinDay t)
          in TimeClip (UTC tz newD))"

definition setMonth :: "Zone \<Rightarrow> Date \<Rightarrow> int \<Rightarrow> int \<Rightarrow> Date" where
  "setMonth tz d m dt =
     (case d of None \<Rightarrow> None
      | Some t0 \<Rightarrow>
          let t = LocalTime tz t0;
              newD = MakeDate (MakeDay (YearFromTime t) m dt) (TimeWithinDay t)
          in TimeClip (UTC tz newD))"

definition setFullYear :: "Zone \<Rightarrow> Date \<Rightarrow> int \<Rightarrow> int \<Rightarrow> int \<Rightarrow> Date" where
  "setFullYear tz d y m dt =
     (let t = (case d of None \<Rightarrow> 0 | Some t0 \<Rightarrow> LocalTime tz t0);
          newD = MakeDate (MakeDay y m dt) (TimeWithinDay t)
      in TimeClip (UTC tz newD))"

definition setHours :: "Zone \<Rightarrow> Date \<Rightarrow> int \<Rightarrow> int \<Rightarrow> int \<Rightarrow> int \<Rightarrow> Date" where
  "setHours tz d h m s ms =
     (case d of None \<Rightarrow> None
      | Some t0 \<Rightarrow>
          let t = LocalTime tz t0;
              newD = MakeDate (Day t) (MakeTime h m s ms)
          in TimeClip (UTC tz newD))"

text \<open>
  The relational operators on two \<^verbatim>\<open>Date\<close> objects compare the time values as
  numbers; a comparison with NaN is false.
\<close>

definition date_ge :: "Date \<Rightarrow> Date \<Rightarrow> bool" where
  "date_ge a b = (case (a, b) of (Some x, Some y) \<Rightarrow> y \<le> x | _ \<Rightarrow> False)"

definition date_le :: "Date \<Rightarrow> Date \<Rightarrow> bool" where
  "date_le a b = (case (a, b) of (Some x, Some y) \<Rightarrow> x \<le> y | _ \<Rightarrow> False)"

text \<open>\<^verbatim>\<open>Math.min\<close> and \<^verbatim>\<open>Math.max\<close> of time values: NaN if any argument is NaN. With
  no argument they are infinite, which \<open>newDate\<close> turns into the invalid date as it
  does NaN, so \<open>None\<close> stands for that case too.\<close>

fun Math_min :: "int option list \<Rightarrow> int option" where
  "Math_min [] = None"
| "Math_min [x] = x"
| "Math_min (x # y # ys) =
     (case (x, Math_min (y # ys)) of (Some a, Some b) \<Rightarrow> Some (min a b) | _ \<Rightarrow> None)"

fun Math_max :: "int option list \<Rightarrow> int option" where
  "Math_max [] = None"
| "Math_max [x] = x"
| "Math_max (x # y # ys) =
     (case (x, Math_max (y # ys)) of (Some a, Some b) \<Rightarrow> Some (max a b) | _ \<Rightarrow> None)"

subsection \<open>The date-fns functions used by the store\<close>

text \<open>
  Each works on a copy of its argument and goes through the \<^verbatim>\<open>Date\<close> setters:
  \<^verbatim>\<open>startOfMonth\<close> is \<^verbatim>\<open>setDate(1); setHours(0,0,0,0)\<close>,
  \<^verbatim>\<open>endOfMonth\<close> is \<^verbatim>\<open>setFullYear(year, month + 1, 0); setHours(23,59,59,999)\<close>,
  \<^verbatim>\<open>startOfDay\<close> is \<^verbatim>\<open>setHours(0,0,0,0)\<close>,
  \<^verbatim>\<open>addDays\<close> is \<^verbatim>\<open>setDate(getDate() + amount)\<close> and \<^verbatim>\<open>subDays\<close> negates the amount,
  \<^verbatim>\<open>addMonths\<close> moves to the same day of the target month, or to its last day when
  the target month is shorter.
\<close>

definition startOfMonth :: "Zone \<Rightarrow> Date \<Rightarrow> Date" where
  "startOfMonth tz d = setHours tz (setDate tz d 1) 0 0 0 0"

definition endOfMonth :: "Zone \<Rightarrow> Date \<Rightarrow> Date" where
  "endOfMonth tz d =
     (case (getFullYear tz d, getMonth tz d) of
        (Some y, Some month) \<Rightarrow> setHours tz (setFullYear tz d y (month + 1) 0) 23 59 59 999
      | _ \<Rightarrow> None)"

definition startOfDay :: "Zone \<Rightarrow> Date \<Rightarrow> Date" where
  "startOfDay tz d = setHours tz d 0 0 0 0"

definition addDays :: "Zone \<Rightarrow> Date \<Rightarrow> int \<Rightarrow> Date" where
  "addDays tz d amount =
     (if amount = 0 then d
      else case getDate tz d of None \<Rightarrow> None | Some g \<Rightarrow> setDate tz d (g + amount))"

definition subDays :: "Zone \<Rightarrow> Date \<Rightarrow> int \<Rightarrow> Date" where
  "subDays tz d amount = addDays tz d (- amount)"

definition addMonths :: "Zone \<Rightarrow> Date \<Rightarrow> int \<Rightarrow> Date" where
  "addMonths tz d amount =
     (if amount = 0 then d
      else case (getDate tz d, getMonth tz d) of
        (Some dayOfMonth, Some m) \<Rightarrow>
          (let endOfDesiredMonth = setMonth tz d (m + amount + 1) 0
           in case (getDate tz endOfDesiredMonth, getFullYear tz endOfDesiredMonth,
                    getMonth tz endOfDesiredMonth) of
                (Some daysInMonth, Some y', Some m') \<Rightarrow>
                  if daysInMonth \<le> dayOfMonth then endOfDesiredMonth
                  else setFullYear tz d y' m' dayOfMonth
              | _ \<Rightarrow> None)
      | _ \<Rightarrow> None)"

subsection \<open>Month labels\<close>

text \<open>
  \<^verbatim>\<open>toLocaleDateString('en-US', { month: 'short', year: 'numeric' })\<close>: the English
  three-letter month and the year of the era in decimal, as in \<^verbatim>\<open>Jan 2024\<close>.
\<close>

definition digitChar :: "nat \<Rightarrow> char" where
  "digitChar d =
     (if d = 0 then CHR ''0'' else if d = 1 then CHR ''1'' else if d = 2 then CHR ''2''
      else if d = 3 then CHR ''3'' else if d = 4 then CHR ''4'' else if d = 5 then CHR ''5''
      else if d = 6 then CHR ''6'' else if d = 7 then CHR ''7'' else if d = 8 then CHR ''8''
      else CHR ''9'')"

fun digitsOf :: "nat \<Rightarrow> string" where
  "digitsOf n =
     (if n < 10 then [digitChar n] else digitsOf (n div 10) @ [digitChar (n mod 10)])"

declare digitsOf.simps [simp del]

definition monthShort :: "int \<Rightarrow> string" where
  "monthShort m =
     (if m = 0 then ''Jan'' else if m = 1 then ''Feb'' else if m = 2 then ''Mar''
      else if m = 3 then ''Apr'' else if m = 4 then ''May'' else if m = 5 then ''Jun''
      else if m = 6 then ''Jul'' else if m = 7 then ''Aug'' else if m = 8 then ''Sep''
      else if m = 9 then ''Oct'' else if m = 10 then ''Nov'' else ''Dec'')"

definition toLocaleDateString :: "Zone \<Rightarrow> Date \<Rightarrow> string" where
  "toLocaleDateString tz d =
     (case d of None \<Rightarrow> ''Invalid Date''
      | Some t0 \<Rightarrow>
          let t = LocalTime tz t0; y = YearFromTime t
          in monthShort (MonthFromTime t) @ '' '' @ digitsOf (nat (if 1 \<le> y then y else 1 - y)))"

section \<open>Numbers\<close>

text \<open>
  A JavaScript Number is an IEEE 754 double: a finite value, one of the two
  infinities, or NaN. A finite Number is its real value, so the two zeros are one
  value. \<open>roundToDouble\<close> rounds a real to the nearest double, to the one with the
  even significand when two are equally near, and to an infinity from
  \<open>2 ^ 1024\<close> on: a double has a significand of 53 bits and an exponent that
  makes its last bit worth \<open>2 ^ - 1074\<close> at least. \<open>bitLength n\<close> is the
  number of binary digits of \<open>n\<close>, \<open>floorLog2 x\<close> the exponent of the largest
  power of two that is at most \<open>x\<close>, and \<open>numAdd\<close> is the operator \<^verbatim>\<open>+\<close> on
  two Numbers.
\<close>

datatype number = Finite real | PosInfinity | NegInfinity | NaN

function bitLength :: "int \<Rightarrow> int" where
  "bitLength n = (if n \<le> 0 then 0 else 1 + bitLength (n div 2))"
  by pat_completeness auto

termination bitLength
  by (relation "measure nat") auto

declare bitLength.simps [simp del]

definition floorLog2 :: "real \<Rightarrow> int" where
  "floorLog2 x = (if 1 \<le> x then bitLength \<lfloor>x\<rfloor> - 1 else - bitLength (\<lceil>1 / x\<rceil> - 1))"

definition pow2 :: "int \<Rightarrow> real" where
  "pow2 e = (if 0 \<le> e then 2 ^ nat e else 1 / 2 ^ nat (- e))"

definition roundHalfEven :: "real \<Rightarrow> int" where
  "roundHalfEven x =
     (let f = \<lfloor>x\<rfloor>; r = x - of_int f
      in if r < 1 / 2 then f else if 1 / 2 < r then f + 1 else if even f then f else f + 1)"

definition roundToDouble :: "real \<Rightarrow> number" where
  "roundToDouble x =
     (if x = 0 then Finite 0
      else
        (let e = max (floorLog2 \<bar>x\<bar> - 52) (- 1074);
             r = of_int (roundHalfEven (x / pow2 e)) * pow2 e
         in if 2 ^ 1024 \<le> r then PosInfinity
            else if r \<le> - (2 ^ 1024) then NegInfinity
            else Finite r))"

fun numAdd :: "number \<Rightarrow> number \<Rightarrow> number" where
  "numAdd NaN y = NaN"
| "numAdd x NaN = NaN"
| "numAdd PosInfinity NegInfinity = NaN"
| "numAdd NegInfinity PosInfinity = NaN"
| "numAdd PosInfinity y = PosInfinity"
| "numAdd x PosInfinity = PosInfinity"
| "numAdd NegInfinity y = NegInfinity"
| "numAdd x NegInfinity = NegInfinity"
| "numAdd (Finite x) (Finite y) = roundToDouble (x + y)"

section \<open>Data model\<close>

datatype Category = Rental | Groceries | Entertainment | Travel | Others
datatype PaymentMode = UPI | CreditCard | NetBanking | Cash
datatype DateFilter = ThisMonth | Last30Days | Last90Days | AllTime

text \<open>
  \<^verbatim>\<open>Omit<Expense, 'id'>\<close> is the record without identifier that \<^verbatim>\<open>addExpense\<close>
  receives; \<^verbatim>\<open>Expense\<close> extends it with the identifier. The fields \<^verbatim>\<open>notes\<close> and
  \<^verbatim>\<open>id\<close> are \<open>notes'\<close> and \<open>expenseId\<close>, as the two names are taken in
  Isabelle.
\<close>

record ExpenseInput =
  amount :: number
  category :: Category
  notes' :: string
  date :: Date
  paymentMode :: PaymentMode

record Expense = ExpenseInput +
  expenseId :: string

text \<open>
  A \<^verbatim>\<open>MonthlyExpenseData\<close> object has the key \<^verbatim>\<open>month\<close> and one numeric key per
  category, read and written as \<^verbatim>\<open>monthData[expense.category]\<close>: the numeric keys are
  a function of the category.
\<close>

record MonthlyExpenseData =
  month :: string
  totals :: "Category \<Rightarrow> number"

section \<open>Expense store\<close>




section \<open>Query engine\<close>

text \<open>
  \<open>now\<close> is the time value of \<^verbatim>\<open>new Date()\<close> at the call; \<open>expenses\<close> is the
  collection the closure reads.
\<close>

definition getFilteredExpenses ::
  "Zone \<Rightarrow> int \<Rightarrow> Expense list \<Rightarrow> DateFilter \<Rightarrow> Category list \<Rightarrow> PaymentMode list \<Rightarrow> Expense list"
where
  "getFilteredExpenses tz now expenses dateFilter categories paymentModes =
     (let filteredExpenses = expenses;
          today = TimeClip now;
          filteredExpenses =
            (if dateFilter = ThisMonth then
               (let firstDayOfMonth = startOfMonth tz today;
                    lastDayOfMonth = endOfMonth tz today
                in filter (\<lambda>expense. date_ge (date expense) firstDayOfMonth
                                     \<and> date_le (date expense) lastDayOfMonth) filteredExpenses)
             else if dateFilter = Last30Days then
               (let thirtyDaysAgo = subDays tz (startOfDay tz today) 30
                in filter (\<lambda>expense. date_ge (date expense) thirtyDaysAgo) filteredExpenses)
             else if dateFilter = Last90Days then
               (let ninetyDaysAgo = subDays tz (startOfDay tz today) 90
                in filter (\<lambda>expense. date_ge (date expense) ninetyDaysAgo) filteredExpenses)
             else filteredExpenses);
          filteredExpenses =
            (if 0 < length categories
             then filter (\<lambda>expense. category expense \<in> set categories) filteredExpenses
             else filteredExpenses);
          filteredExpenses =
            (if 0 < length paymentModes
             then filter (\<lambda>expense. paymentMode expense \<in> set paymentModes) filteredExpenses
             else filteredExpenses)
      in filteredExpenses)"

definition emptyMonthData :: "string \<Rightarrow> MonthlyExpenseData" where
  "emptyMonthData monthYear =
     \<lparr> month = monthYear,
       totals = (\<lambda>c. case c of Rental \<Rightarrow> Finite 0 | Groceries \<Rightarrow> Finite 0
                        | Entertainment \<Rightarrow> Finite 0 | Travel \<Rightarrow> Finite 0
                        | Others \<Rightarrow> Finite 0) \<rparr>"

text \<open>
  The body of the \<^verbatim>\<open>forEach\<close> callback, on the month object built so far:
  \<^verbatim>\<open>monthData[expense.category] += expense.amount\<close> is an addition of Numbers.
\<close>

definition addToMonth :: "Date \<Rightarrow> Date \<Rightarrow> MonthlyExpenseData \<Rightarrow> Expense \<Rightarrow> MonthlyExpenseData" where
  "addToMonth monthStart monthEnd monthData expense =
     (if date_ge (date expense) monthStart \<and> date_le (date expense) monthEnd
      then monthData\<lparr> totals := (totals monthData)
             (category expense := numAdd (totals monthData (category expense)) (amount expense)) \<rparr>
      else monthData)"

function monthsLoop ::
  "Zone \<Rightarrow> Expense list \<Rightarrow> Date \<Rightarrow> Date \<Rightarrow> MonthlyExpenseData list \<Rightarrow> MonthlyExpenseData list"
where
  "monthsLoop tz expenses currentDate endDate months =
     (if date_le currentDate endDate then
        (let monthYear = toLocaleDateString tz currentDate;
             monthData = emptyMonthData monthYear;
             monthStart = startOfMonth tz currentDate;
             monthEnd = endOfMonth tz currentDate;
             monthData = foldl (addToMonth monthStart monthEnd) monthData expenses
         in monthsLoop tz expenses (addMonths tz currentDate 1) endDate (months @ [monthData]))
      else months)"
  by pat_completeness auto

definition getMonthlyExpensesByCategory :: "Zone \<Rightarrow> Expense list \<Rightarrow> MonthlyExpenseData list" where
  "getMonthlyExpensesByCategory tz expenses =
     (if length expenses = 0 then []
      else
        (let dates = map date expenses;
             earliestDate = newDate (Math_min (map getTime dates));
             latestDate = newDate (Math_max (map getTime dates));
             startDate = startOfMonth tz earliestDate;
             endDate = endOfMonth tz latestDate
         in monthsLoop tz expenses startDate endDate []))"

section \<open>Persistence\<close>

text \<open>
  The store writes \<^verbatim>\<open>JSON.stringify(expenses)\<close> to the slot \<^verbatim>\<open>expenses\<close> of the
  local storage and reads it back at startup with
  \<^verbatim>\<open>JSON.parse(savedExpenses).map(expense => ({...expense, date: new Date(expense.date)}))\<close>.

  \<open>json\<close> is a parsed JSON text; \<open>jsval\<close> is a value at run time, where a
  \<^verbatim>\<open>Date\<close> object can occur. An object is the list of its properties in enumeration
  order. What a caught exception would be is an \<open>error\<close>.
\<close>

datatype error = SyntaxError | TypeError

datatype json =
  JNull | JBool bool | JNum number | JStr string | JArr "json list" | JObj "(string \<times> json) list"

datatype jsval =
  VUndefined | VNull | VBool bool | VNum number | VStr string | VDate Date
  | VArr "jsval list" | VObj "(string \<times> jsval) list"

text \<open>
  The built-in functions of the JavaScript engine that the store relies on are
  parameters: the JSON parser (a \<^verbatim>\<open>SyntaxError\<close> when the text is not JSON), the text
  that \<^verbatim>\<open>JSON.stringify\<close> writes for a JSON value, \<^verbatim>\<open>Date.prototype.toISOString\<close> on a
  time value, \<^verbatim>\<open>Date.parse\<close> on a string, and the conversion of an array or object to
  a primitive, which is a string or throws a \<^verbatim>\<open>TypeError\<close>.
\<close>

record Engine =
  JSON_parse :: "string \<Rightarrow> error + json"
  JSON_text :: "json \<Rightarrow> string"
  toISOString :: "int \<Rightarrow> string"
  Date_parse :: "string \<Rightarrow> Date"
  ToPrimitive :: "json \<Rightarrow> error + string"

primrec ofJSON :: "json \<Rightarrow> jsval" where
  "ofJSON JNull = VNull"
| "ofJSON (JBool b) = VBool b"
| "ofJSON (JNum x) = VNum x"
| "ofJSON (JStr s) = VStr s"
| "ofJSON (JArr xs) = VArr (map ofJSON xs)"
| "ofJSON (JObj fs) = VObj (map (map_prod id ofJSON) fs)"






text \<open>
  Reading the property \<^verbatim>\<open>date\<close> of a parsed element: \<open>None\<close> is \<^verbatim>\<open>undefined\<close>,
  also for a number, a boolean, a string or an array, which have no such property.
\<close>

definition getProp :: "json \<Rightarrow> string \<Rightarrow> json option" where
  "getProp e k = (case e of JObj fs \<Rightarrow> map_of fs k | _ \<Rightarrow> None)"

text \<open>
  The own enumerable properties that \<^verbatim>\<open>{...expense}\<close> copies: those of an object,
  the elements of an array and the characters of a string under their indices, and
  none for the other values.
\<close>

definition indexKeys :: "nat \<Rightarrow> string list" where
  "indexKeys n = map digitsOf [0..<n]"

definition spread :: "json \<Rightarrow> (string \<times> jsval) list" where
  "spread e =
     (case e of
        JObj fs \<Rightarrow> map (map_prod id ofJSON) fs
      | JArr xs \<Rightarrow> zip (indexKeys (length xs)) (map ofJSON xs)
      | JStr s \<Rightarrow> zip (indexKeys (length s)) (map (\<lambda>c. VStr [c]) s)
      | _ \<Rightarrow> [])"

text \<open>Writing a property: in place when the key exists, at the end otherwise.\<close>

fun setProp :: "(string \<times> jsval) list \<Rightarrow> string \<Rightarrow> jsval \<Rightarrow> (string \<times> jsval) list" where
  "setProp [] k v = [(k, v)]"
| "setProp ((k', v') # ps) k v = (if k' = k then (k, v) # ps else (k', v') # setProp ps k v)"

text \<open>
  \<^verbatim>\<open>new Date(value)\<close> on what the property read gave: \<^verbatim>\<open>undefined\<close> is NaN,
  \<^verbatim>\<open>null\<close> and booleans are converted to a number, a finite number in the range
  of time values is truncated to an integer, a string is parsed, and an array or
  object is converted to a primitive first.
\<close>

definition truncateNumber :: "real \<Rightarrow> int" where
  "truncateNumber x = (if 0 \<le> x then \<lfloor>x\<rfloor> else \<lceil>x\<rceil>)"

definition TimeClipNumber :: "number \<Rightarrow> Date" where
  "TimeClipNumber v =
     (case v of
        Finite x \<Rightarrow> (if real_of_int maxTime < \<bar>x\<bar> then None else Some (truncateNumber x))
      | _ \<Rightarrow> None)"

definition newDateFrom :: "Engine \<Rightarrow> json option \<Rightarrow> error + Date" where
  "newDateFrom eng v =
     (case v of
        None \<Rightarrow> Inr None
      | Some JNull \<Rightarrow> Inr (TimeClip 0)
      | Some (JBool b) \<Rightarrow> Inr (TimeClip (if b then 1 else 0))
      | Some (JNum x) \<Rightarrow> Inr (TimeClipNumber x)
      | Some (JStr s) \<Rightarrow> Inr (Date_parse eng s)
      | Some j \<Rightarrow> (case ToPrimitive eng j of Inl err \<Rightarrow> Inl err
                   | Inr s \<Rightarrow> Inr (Date_parse eng s)))"

text \<open>
  The callback of \<^verbatim>\<open>map\<close>. Reading \<^verbatim>\<open>expense.date\<close> throws a \<^verbatim>\<open>TypeError\<close> when the
  element is \<^verbatim>\<open>null\<close>.
\<close>

definition reviveExpense :: "Engine \<Rightarrow> json \<Rightarrow> error + jsval" where
  "reviveExpense eng expense =
     (case expense of
        JNull \<Rightarrow> Inl TypeError
      | _ \<Rightarrow> (case newDateFrom eng (getProp expense ''date'') of
                Inl err \<Rightarrow> Inl err
              | Inr d \<Rightarrow> Inr (VObj (setProp (spread expense) ''date'' (VDate d)))))"

text \<open>\<^verbatim>\<open>Array.prototype.map\<close> with a callback that may throw.\<close>

fun mapE :: "('a \<Rightarrow> error + 'b) \<Rightarrow> 'a list \<Rightarrow> error + 'b list" where
  "mapE f [] = Inr []"
| "mapE f (x # xs) =
     (case f x of Inl err \<Rightarrow> Inl err
      | Inr y \<Rightarrow> (case mapE f xs of Inl err \<Rightarrow> Inl err | Inr ys \<Rightarrow> Inr (y # ys)))"

text \<open>
  The body of the \<^verbatim>\<open>try\<close> block. Only an array has a method \<^verbatim>\<open>map\<close>: calling it on
  any other parsed value throws a \<^verbatim>\<open>TypeError\<close>.
\<close>

definition parseExpenses :: "Engine \<Rightarrow> string \<Rightarrow> error + jsval list" where
  "parseExpenses eng savedExpenses =
     (case JSON_parse eng savedExpenses of
        Inl err \<Rightarrow> Inl err
      | Inr (JArr elems) \<Rightarrow> mapE (reviveExpense eng) elems
      | Inr _ \<Rightarrow> Inl TypeError)"

text \<open>
  The state of the provider: the collection and the lines written with
  \<^verbatim>\<open>console.error\<close>. \<open>loadExpenses\<close> is the load effect on the value that
  \<^verbatim>\<open>localStorage.getItem('expenses')\<close> returned, \<open>None\<close> for \<^verbatim>\<open>null\<close>; the empty
  string is falsy, so the condition of the \<^verbatim>\<open>if\<close> fails for it as well.
\<close>

record Store =
  expenses :: "jsval list"
  console :: "string list"

definition initialStore :: Store where
  "initialStore = \<lparr> expenses = [], console = [] \<rparr>"

definition loadExpenses :: "Engine \<Rightarrow> string option \<Rightarrow> Store \<Rightarrow> Store" where
  "loadExpenses eng savedExpenses st =
     (case savedExpenses of
        None \<Rightarrow> st
      | Some s \<Rightarrow>
          if s = [] then st
          else (case parseExpenses eng s of
                  Inr parsedExpenses \<Rightarrow> st\<lparr> expenses := parsedExpenses \<rparr>
                | Inl err \<Rightarrow>
                    st\<lparr> console := console st @ [''Failed to parse expenses from localStorage:''] \<rparr>))"

text \<open>
  An engine for examples: its parser returns \<open>stored\<close> for every text, it writes
  the text \<open>txt\<close> for every value, and it prints the time value \<open>t\<close> as \<open>isoText\<close> and
  parses \<open>isoText\<close> back to \<open>t\<close>, no other string being a date.
\<close>

definition exampleEngine :: "error + json \<Rightarrow> string \<Rightarrow> int \<Rightarrow> string \<Rightarrow> Engine" where
  "exampleEngine stored txt t isoText =
     \<lparr> JSON_parse = (\<lambda>s. stored),
       JSON_text = (\<lambda>j. txt),
       toISOString = (\<lambda>u. if u = t then isoText else ''other''),
       Date_parse = (\<lambda>s. if s = isoText then Some t else None),
       ToPrimitive = (\<lambda>j. Inl TypeError) \<rparr>"

section \<open>The queries on a heap of arrays\<close>

text \<open>
  Arrays are objects with an identity: the collection that the closures read is one
  array, and \<^verbatim>\<open>[...expenses]\<close>, \<^verbatim>\<open>filter\<close>, \<^verbatim>\<open>map\<close> and an array literal each
  create a new one, while \<^verbatim>\<open>push\<close> changes an array in place. A heap is the list
  of the arrays created so far and the address of an array is its position. The
  two queries are written once more on this heap: they take the address of the
  collection and return the address of their result and the heap after the call.
  The elements of the arrays are values here, as neither query writes to an element
  of the collection.
\<close>

type_synonym addr = nat

datatype cell =
  ExpenseArray "Expense list"
  | DateArray "Date list"
  | NumberArray "int option list"
  | MonthArray "MonthlyExpenseData list"

type_synonym heap = "cell list"

definition alloc :: "heap \<Rightarrow> cell \<Rightarrow> addr \<times> heap" where
  "alloc h c = (length h, h @ [c])"

definition expensesAt :: "heap \<Rightarrow> addr \<Rightarrow> Expense list" where
  "expensesAt h a =
     (if a < length h then (case h ! a of ExpenseArray es \<Rightarrow> es | _ \<Rightarrow> []) else [])"

definition datesAt :: "heap \<Rightarrow> addr \<Rightarrow> Date list" where
  "datesAt h a =
     (if a < length h then (case h ! a of DateArray ds \<Rightarrow> ds | _ \<Rightarrow> []) else [])"

definition numbersAt :: "heap \<Rightarrow> addr \<Rightarrow> int option list" where
  "numbersAt h a =
     (if a < length h then (case h ! a of NumberArray ns \<Rightarrow> ns | _ \<Rightarrow> []) else [])"

definition monthsAt :: "heap \<Rightarrow> addr \<Rightarrow> MonthlyExpenseData list" where
  "monthsAt h a =
     (if a < length h then (case h ! a of MonthArray ms \<Rightarrow> ms | _ \<Rightarrow> []) else [])"

definition push :: "heap \<Rightarrow> addr \<Rightarrow> MonthlyExpenseData \<Rightarrow> heap" where
  "push h a x = (if a < length h then h[a := MonthArray (monthsAt h a @ [x])] else h)"

text \<open>
  The assignment \<^verbatim>\<open>filteredExpenses = filteredExpenses.filter(p)\<close>, on the pair of
  the address held by the variable and the heap: the filtered array is created and
  the variable holds its address.
\<close>

definition filterInto :: "(Expense \<Rightarrow> bool) \<Rightarrow> addr \<times> heap \<Rightarrow> addr \<times> heap" where
  "filterInto p s =
     (let (filteredExpenses, h) = s
      in alloc h (ExpenseArray (filter p (expensesAt h filteredExpenses))))"

definition getFilteredExpensesH ::
  "Zone \<Rightarrow> int \<Rightarrow> heap \<Rightarrow> addr \<Rightarrow> DateFilter \<Rightarrow> Category list \<Rightarrow> PaymentMode list \<Rightarrow> addr \<times> heap"
where
  "getFilteredExpensesH tz now h0 expensesA dateFilter categories paymentModes =
     (let s = alloc h0 (ExpenseArray (expensesAt h0 expensesA));
          today = TimeClip now;
          s = (if dateFilter = ThisMonth then
                 (let firstDayOfMonth = startOfMonth tz today;
                      lastDayOfMonth = endOfMonth tz today
                  in filterInto (\<lambda>expense. date_ge (date expense) firstDayOfMonth
                                         \<and> date_le (date expense) lastDayOfMonth) s)
               else if dateFilter = Last30Days then
                 (let thirtyDaysAgo = subDays tz (startOfDay tz today) 30
                  in filterInto (\<lambda>expense. date_ge (date expense) thirtyDaysAgo) s)
               else if dateFilter = Last90Days then
                 (let ninetyDaysAgo = subDays tz (startOfDay tz today) 90
                  in filterInto (\<lambda>expense. date_ge (date expense) ninetyDaysAgo) s)
               else s);
          s = (if 0 < length categories
               then filterInto (\<lambda>expense. category expense \<in> set categories) s
               else s);
          s = (if 0 < length paymentModes
               then filterInto (\<lambda>expense. paymentMode expense \<in> set paymentModes) s
               else s)
      in s)"

function monthsLoopH ::
  "Zone \<Rightarrow> heap \<Rightarrow> addr \<Rightarrow> Date \<Rightarrow> Date \<Rightarrow> addr \<Rightarrow> heap"
where
  "monthsLoopH tz h expensesA currentDate endDate months =
     (if date_le currentDate endDate then
        (let monthYear = toLocaleDateString tz currentDate;
             monthData = emptyMonthData monthYear;
             monthStart = startOfMonth tz currentDate;
             monthEnd = endOfMonth tz currentDate;
             monthData = foldl (addToMonth monthStart monthEnd) monthData (expensesAt h expensesA);
             h = push h months monthData
         in monthsLoopH tz h expensesA (addMonths tz currentDate 1) endDate months)
      else h)"
  by pat_completeness auto

definition getMonthlyExpensesByCategoryH :: "Zone \<Rightarrow> heap \<Rightarrow> addr \<Rightarrow> addr \<times> heap" where
  "getMonthlyExpensesByCategoryH tz h0 expensesA =
     (if length (expensesAt h0 expensesA) = 0 then alloc h0 (MonthArray [])
      else
        (let (dates, h) = alloc h0 (DateArray (map date (expensesAt h0 expensesA)));
             (times, h) = alloc h (NumberArray (map getTime (datesAt h dates)));
             earliestDate = newDate (Math_min (numbersAt h times));
             (times, h) = alloc h (NumberArray (map getTime (datesAt h dates)));
             latestDate = newDate (Math_max (numbersAt h times));
             startDate = startOfMonth tz earliestDate;
             endDate = endOfMonth tz latestDate;
             (months, h) = alloc h (MonthArray []);
             h = monthsLoopH tz h expensesA startDate endDate months
         in (months, h)))"

text \<open>
  \<open>endsWith h c s\<close>: the heap of \<open>s\<close> is \<open>h\<close> followed by new arrays, the last of
  which is \<open>c\<close>, and the address of \<open>s\<close> is the address of that last array.
\<close>

definition endsWith :: "heap \<Rightarrow> cell \<Rightarrow> addr \<times> heap \<Rightarrow> bool" where
  "endsWith h c s = (\<exists>cells. s = (length h + length cells, h @ cells @ [c]))"

section \<open>Month indices\<close>

text \<open>
  Months are counted from January 1970: \<open>firstDay k\<close> is the day on which month
  \<open>k\<close> starts, \<open>monthIndex d\<close> the month that contains day \<open>d\<close>,
  \<open>monthOf tz t\<close> the local month of the time value \<open>t\<close>, \<open>ofLocal tz x r\<close> the
  time value of the local time that is \<open>r\<close> milliseconds into local day \<open>x\<close>,
  \<open>monthStart tz k\<close> the time value of local midnight on the first day of month
  \<open>k\<close>, and \<open>monthEnd tz k\<close> the time value of the last millisecond of month
  \<open>k\<close> in local time.
\<close>

definition firstDay :: "int \<Rightarrow> int" where
  "firstDay k = MakeDay 1970 k 1"

definition monthIndex :: "int \<Rightarrow> int" where
  "monthIndex d = 12 * (YearFromDay d - 1970) + MonthFromDay d"

definition monthOf :: "Zone \<Rightarrow> int \<Rightarrow> int" where
  "monthOf tz t = monthIndex (Day (LocalTime tz t))"

definition ofLocal :: "Zone \<Rightarrow> int \<Rightarrow> int \<Rightarrow> int" where
  "ofLocal tz x r = UTC tz (x * msPerDay + r)"

definition monthStart :: "Zone \<Rightarrow> int \<Rightarrow> int" where
  "monthStart tz k = ofLocal tz (firstDay k) 0"

definition monthEnd :: "Zone \<Rightarrow> int \<Rightarrow> int" where
  "monthEnd tz k = ofLocal tz (firstDay (k + 1) - 1) (msPerDay - 1)"

section \<open>Changes of the clocks and the calendar\<close>

text \<open>
  When the clocks are set forward at the time value \<open>T\<close>, from the offset
  \<open>off\<close> to \<open>off'\<close>, the local times from \<open>T + off\<close> up to \<open>T + off'\<close> are
  skipped, and a skipped local time is read as the local time that is later by the
  difference of the offsets. When they are set back, the local times from
  \<open>T + off'\<close> up to \<open>T + off\<close> are shown twice. \<open>withinDay\<close> says of the changes
  of a zone that these local times do not reach across a local midnight: the
  skipped ones and the ones they are read as are times of one day, and so are the
  repeated ones. \<open>endsNotAt B\<close> says that no change has its skipped or repeated
  local times end at the local time \<open>B\<close>. \<open>changesWithinDay\<close> and
  \<open>monthEndsCleanly\<close> are the two conditions on a zone, the second for the midnight
  at which month \<open>k\<close> ends.
\<close>

fun withinDay :: "int \<Rightarrow> (int \<times> int) list \<Rightarrow> bool" where
  "withinDay off [] = True"
| "withinDay off ((T, off') # rest) =
     ((if off < off' then Day (T + off) = Day (T + off' + (off' - off) - 1)
       else if off' < off then Day (T + off') = Day (T + off - 1)
       else True)
      \<and> withinDay off' rest)"

fun endsNotAt :: "int \<Rightarrow> int \<Rightarrow> (int \<times> int) list \<Rightarrow> bool" where
  "endsNotAt B off [] = True"
| "endsNotAt B off ((T, off') # rest) =
     ((off = off' \<or> T + max off off' \<noteq> B) \<and> endsNotAt B off' rest)"

definition changesWithinDay :: "Zone \<Rightarrow> bool" where
  "changesWithinDay tz = withinDay (initialOffset tz) (changes tz)"

definition monthEndsCleanly :: "Zone \<Rightarrow> int \<Rightarrow> bool" where
  "monthEndsCleanly tz k =
     endsNotAt (firstDay (k + 1) * msPerDay) (initialOffset tz) (changes tz)"

section \<open>What the aggregation computes\<close>

text \<open>
  The monthly entries in terms of the calendar: \<open>inMonth tz k d\<close> says that the
  date \<open>d\<close> is valid and falls in month \<open>k\<close> of local time, \<open>monthTotal\<close> adds
  up, from zero and in the order of the collection, the amounts of the records of
  one month and one category, \<open>monthLabel\<close> is the display label of month \<open>k\<close>,
  and \<open>monthEntry\<close> is the entry for month \<open>k\<close>. \<open>safeTime t\<close> keeps a time
  value at least 100 days inside the range of time values, so that the ends of its
  month and of the next one are time values too.
\<close>

definition safeTime :: "int \<Rightarrow> bool" where
  "safeTime t = (\<bar>t\<bar> \<le> maxTime - 100 * msPerDay)"

definition inMonth :: "Zone \<Rightarrow> int \<Rightarrow> Date \<Rightarrow> bool" where
  "inMonth tz k d = (case d of None \<Rightarrow> False | Some t \<Rightarrow> monthOf tz t = k)"

definition monthTotal :: "Zone \<Rightarrow> Expense list \<Rightarrow> int \<Rightarrow> Category \<Rightarrow> number" where
  "monthTotal tz es k c =
     foldl numAdd (Finite 0)
       (map amount (filter (\<lambda>e. inMonth tz k (date e) \<and> category e = c) es))"

definition monthLabel :: "int \<Rightarrow> string" where
  "monthLabel k =
     (let y = 1970 + k div 12
      in monthShort (k mod 12) @ '' '' @ digitsOf (nat (if 1 \<le> y then y else 1 - y)))"

definition monthEntry :: "Zone \<Rightarrow> Expense list \<Rightarrow> int \<Rightarrow> MonthlyExpenseData" where
  "monthEntry tz es k = \<lparr> month = monthLabel k, totals = monthTotal tz es k \<rparr>"

text \<open>
  The real value of a finite Number, the sum of the values of the five category
  totals of one entry, and the Numbers that are whole: of these, sums that stay
  within 53 bits are exact.
\<close>

definition valueOf :: "number \<Rightarrow> real" where
  "valueOf v = (case v of Finite x \<Rightarrow> x | _ \<Rightarrow> 0)"

definition categorySum :: "MonthlyExpenseData \<Rightarrow> real" where
  "categorySum monthData =
     valueOf (totals monthData Rental) + valueOf (totals monthData Groceries)
     + valueOf (totals monthData Entertainment) + valueOf (totals monthData Travel)
     + valueOf (totals monthData Others)"

definition isWhole :: "number \<Rightarrow> bool" where
  "isWhole v = (case v of Finite x \<Rightarrow> x = of_int \<lfloor>x\<rfloor> | _ \<Rightarrow> False)"

section \<open>What the filters keep\<close>

text \<open>
  \<open>keeps\<close> is the category and payment mode part of the filter: an empty selection
  keeps every record. \<open>startOfToday tz now\<close> is the time value of local midnight
  of the day of \<open>now\<close>, \<open>daysEarlier tz n t\<close> the time value of the local time
  that is \<open>n\<close> calendar days before the local time of \<open>t\<close>, at the same time of
  day, and \<open>onOrAfter t0 d\<close> says that \<open>d\<close> is a valid date at or after
  \<open>t0\<close>. \<open>clipped f d\<close> is the date that a method computing the time value
  \<open>f t\<close> from the time value \<open>t\<close> of a date gives on \<open>d\<close>: the invalid date on
  the invalid date and when \<open>f t\<close> is no time value.
\<close>

definition keeps :: "Category list \<Rightarrow> PaymentMode list \<Rightarrow> Expense \<Rightarrow> bool" where
  "keeps categories paymentModes e =
     ((categories = [] \<or> category e \<in> set categories)
      \<and> (paymentModes = [] \<or> paymentMode e \<in> set paymentModes))"





section \<open>The zones of the examples\<close>

text \<open>
  Three zones with their changes of the clocks in 2023 and 2024: UTC, which has
  none; New York, five hours behind UTC and four in summer, where the clocks change
  at two in the morning; and Cairo, two hours ahead of UTC and three in summer,
  where the clocks are set forward at local midnight and set back, from midnight to
  eleven in the evening, at the end of the last Thursday of October, which in
  2024 is the last day of the month.
\<close>

definition utc :: Zone where
  "utc = makeZone 0 []"

definition newYork :: Zone where
  "newYork = makeZone (- 18000000)
     [(1678604400000, - 14400000), (1699164000000, - 18000000),
      (1710054000000, - 14400000), (1730613600000, - 18000000)]"

definition cairo :: Zone where
  "cairo = makeZone 7200000 [(1714082400000, 10800000), (1730408400000, 7200000)]"

section \<open>Properties of the calendar\<close>

lemma div_succ_int:
  fixes x c :: int
  assumes c: "0 < c"
  shows "(x + 1) div c = x div c + (if (x + 1) mod c = 0 then 1 else 0)"
proof (cases "x mod c + 1 < c")
  case True
  have e: "x + 1 = c * (x div c) + (x mod c + 1)" by simp
  have r0: "0 \<le> x mod c + 1" using c by (simp add: add_nonneg_nonneg)
  have "(x + 1) div c = x div c" using int_div_pos_eq[OF e r0 True] .
  moreover have "(x + 1) mod c = x mod c + 1" using int_mod_pos_eq[OF e r0 True] .
  moreover have "0 \<le> x mod c" using c by simp
  ultimately show ?thesis by simp
next
  case False
  have "x mod c < c" using c by simp
  with False have r: "x mod c + 1 = c" by linarith
  have "x = c * (x div c) + x mod c" by simp
  then have "x + 1 = c * (x div c) + c" using r by linarith
  then have e: "x + 1 = c * (x div c + 1) + 0" by (simp add: algebra_simps)
  have "(x + 1) div c = x div c + 1" using int_div_pos_eq[OF e _ c] by simp
  moreover have "(x + 1) mod c = 0" using int_mod_pos_eq[OF e _ c] by simp
  ultimately show ?thesis by simp
qed

lemma mod_sub_mult: "((y::int) - n * c) mod c = y mod c"
  by (metis diff_zero mod_diff_right_eq mod_mult_self2_is_0)

lemma DFY_aux:
  fixes A B C a b c y :: int
  shows "365 * (y + 1 - 1970) + (A + a) - (B + b) + (C + c) =
         (365 * (y - 1970) + A - B + C) + (365 + a - b + c)"
  by simp

lemma leap_aux:
  "(p400 \<Longrightarrow> p100) \<Longrightarrow> (p100 \<Longrightarrow> p4) \<Longrightarrow>
   365 + (if p4 then 1 else 0) - (if p100 then 1 else 0) + (if p400 then 1 else 0) =
   365 + (if p4 \<and> (\<not> p100 \<or> p400) then 1 else (0::int))"
  by (cases p4; cases p100; cases p400; simp)

lemma DayFromYear_Suc: "DayFromYear (y + 1) = DayFromYear y + (365 + leapDays y)"
proof -
  have a: "(y + 1 - 1969) div 4 = (y - 1969) div 4 + (if y mod 4 = 0 then 1 else 0)"
    using div_succ_int[of 4 "y - 1969"] mod_sub_mult[of y 492 4] by (simp add: algebra_simps)
  have b: "(y + 1 - 1901) div 100 = (y - 1901) div 100 + (if y mod 100 = 0 then 1 else 0)"
    using div_succ_int[of 100 "y - 1901"] mod_sub_mult[of y 19 100] by (simp add: algebra_simps)
  have c: "(y + 1 - 1601) div 400 = (y - 1601) div 400 + (if y mod 400 = 0 then 1 else 0)"
    using div_succ_int[of 400 "y - 1601"] mod_sub_mult[of y 4 400] by (simp add: algebra_simps)
  have d: "y mod 100 = 0" if "y mod 400 = 0"
  proof -
    have "(100::int) dvd 400" by simp
    moreover have "400 dvd y" using that by (simp add: mod_eq_0_iff_dvd)
    ultimately have "100 dvd y" by (rule dvd_trans)
    then show ?thesis by (simp add: mod_eq_0_iff_dvd)
  qed
  have e: "y mod 4 = 0" if "y mod 100 = 0"
  proof -
    have "(4::int) dvd 100" by simp
    moreover have "100 dvd y" using that by (simp add: mod_eq_0_iff_dvd)
    ultimately have "4 dvd y" by (rule dvd_trans)
    then show ?thesis by (simp add: mod_eq_0_iff_dvd)
  qed
  define A where "A = (y - 1969) div 4"
  define B where "B = (y - 1901) div 100"
  define C where "C = (y - 1601) div 400"
  have "DayFromYear (y + 1) = 365 * (y + 1 - 1970) + (y + 1 - 1969) div 4
       - (y + 1 - 1901) div 100 + (y + 1 - 1601) div 400"
    by (rule DayFromYear_def)
  also have "\<dots> = 365 * (y + 1 - 1970) + (A + (if y mod 4 = 0 then 1 else 0))
       - (B + (if y mod 100 = 0 then 1 else 0)) + (C + (if y mod 400 = 0 then 1 else 0))"
    unfolding a b c A_def B_def C_def ..
  also have "\<dots> = (365 * (y - 1970) + A - B + C) +
      (365 + (if y mod 4 = 0 then 1 else 0) - (if y mod 100 = 0 then 1 else 0)
           + (if y mod 400 = 0 then 1 else 0))"
    by (rule DFY_aux)
  also have "365 * (y - 1970) + A - B + C = DayFromYear y"
    unfolding A_def B_def C_def DayFromYear_def ..
  also have "365 + (if y mod 4 = 0 then 1 else 0) - (if y mod 100 = 0 then 1 else 0)
           + (if y mod 400 = 0 then 1 else 0) = 365 + leapDays y"
    unfolding InLeapYear_def leapDays_def by (rule leap_aux) (fact d, fact e)
  finally show ?thesis .
qed

lemma leapDays_range: "0 \<le> leapDays y" "leapDays y \<le> 1"
  by (simp_all add: leapDays_def)

lemma DayFromYear_less_Suc: "DayFromYear y < DayFromYear (y + 1)"
  using DayFromYear_Suc[of y] leapDays_range[of y] by linarith

termination findYear
proof (relation "measure (\<lambda>(d, y). nat (d - DayFromYear y))")
  show "wf (measure (\<lambda>(d, y). nat (d - DayFromYear y)))" by simp
next
  fix d y :: int
  assume "DayFromYear (y + 1) \<le> d"
  then show "((d, y + 1), (d, y)) \<in> measure (\<lambda>(d, y). nat (d - DayFromYear y))"
    using DayFromYear_less_Suc[of y] by simp
qed

declare findYear.simps [simp del]

lemma mult_div_le_int:
  fixes c d :: int
  assumes "0 < c"
  shows "c * (d div c) \<le> d"
proof -
  have "c * (d div c) + d mod c = d" by (rule mult_div_mod_eq)
  moreover have "0 \<le> d mod c" using assms by simp
  ultimately show ?thesis by linarith
qed

lemma DayFromYear_1970: "DayFromYear 1970 = 0"
  by (simp add: DayFromYear_def)

lemma DayFromYear_up: "DayFromYear (1970 + int n) \<le> 366 * int n"
proof (induction n)
  case 0
  show ?case by (simp add: DayFromYear_1970)
next
  case (Suc n)
  have "DayFromYear (1970 + int (Suc n)) = DayFromYear (1970 + int n + 1)"
    by (simp add: ac_simps)
  also have "\<dots> = DayFromYear (1970 + int n) + (365 + leapDays (1970 + int n))"
    by (rule DayFromYear_Suc)
  finally show ?case using Suc leapDays_range[of "1970 + int n"] by simp
qed

lemma DayFromYear_down: "DayFromYear (1970 - int n) \<le> - 365 * int n"
proof (induction n)
  case 0
  show ?case by (simp add: DayFromYear_1970)
next
  case (Suc n)
  have "DayFromYear (1970 - int n) = DayFromYear (1970 - int (Suc n) + 1)"
    by simp
  also have "\<dots> = DayFromYear (1970 - int (Suc n)) + (365 + leapDays (1970 - int (Suc n)))"
    by (rule DayFromYear_Suc)
  finally show ?case using Suc leapDays_range[of "1970 - int (Suc n)"] by simp
qed

lemma DayFromYear_mono_nat: "DayFromYear y + 365 * int n \<le> DayFromYear (y + int n)"
proof (induction n)
  case 0
  show ?case by simp
next
  case (Suc n)
  have "DayFromYear (y + int (Suc n)) = DayFromYear (y + int n + 1)"
    by (simp add: ac_simps)
  also have "\<dots> = DayFromYear (y + int n) + (365 + leapDays (y + int n))"
    by (rule DayFromYear_Suc)
  finally show ?case using Suc leapDays_range[of "y + int n"] by simp
qed

lemma DayFromYear_mono: "y \<le> y' \<Longrightarrow> DayFromYear y \<le> DayFromYear y'"
  using DayFromYear_mono_nat[of y "nat (y' - y)"] by simp

lemma DayFromYear_strict: "y < y' \<Longrightarrow> DayFromYear y < DayFromYear y'"
  using DayFromYear_mono[of "y + 1" y'] DayFromYear_less_Suc[of y] by simp

lemma findYear_bounds:
  "DayFromYear y \<le> d \<Longrightarrow>
   DayFromYear (findYear d y) \<le> d \<and> d < DayFromYear (findYear d y + 1)"
proof (induction d y rule: findYear.induct)
  case (1 d y)
  show ?case
  proof (cases "DayFromYear (y + 1) \<le> d")
    case True
    then show ?thesis using 1 by (simp del: findYear.simps add: findYear.simps[of d y])
  next
    case False
    then show ?thesis using 1 by (simp del: findYear.simps add: findYear.simps[of d y])
  qed
qed

lemma YearFromDay_start:
  "DayFromYear (1970 + (if 0 \<le> d then d div 366 else d div 365)) \<le> d"
proof (cases "0 \<le> d")
  case True
  then have "0 \<le> d div 366" by simp
  then have "DayFromYear (1970 + int (nat (d div 366))) \<le> 366 * int (nat (d div 366))"
    using DayFromYear_up by blast
  then have "DayFromYear (1970 + d div 366) \<le> 366 * (d div 366)"
    using \<open>0 \<le> d div 366\<close> by simp
  moreover have "366 * (d div 366) \<le> d"
    by (rule mult_div_le_int) simp
  ultimately show ?thesis using True by simp
next
  case False
  then have "d div 365 < 0" by (intro div_neg_pos_less0) simp_all
  then have n: "d div 365 \<le> 0" by simp
  have "DayFromYear (1970 - int (nat (- (d div 365)))) \<le> - 365 * int (nat (- (d div 365)))"
    by (rule DayFromYear_down)
  then have "DayFromYear (1970 + d div 365) \<le> 365 * (d div 365)"
    using n by simp
  moreover have "365 * (d div 365) \<le> d"
    by (rule mult_div_le_int) simp
  ultimately show ?thesis using False by simp
qed

lemma YearFromDay_bounds:
  "DayFromYear (YearFromDay d) \<le> d" "d < DayFromYear (YearFromDay d + 1)"
  using findYear_bounds[OF YearFromDay_start[of d]] by (simp_all add: YearFromDay_def)

lemma YearFromDay_unique:
  assumes "DayFromYear y \<le> d" "d < DayFromYear (y + 1)"
  shows "YearFromDay d = y"
proof (rule ccontr)
  assume ne: "YearFromDay d \<noteq> y"
  show False
  proof (cases "YearFromDay d < y")
    case True
    then have "DayFromYear (YearFromDay d + 1) \<le> DayFromYear y"
      by (intro DayFromYear_mono) simp
    then show False using YearFromDay_bounds(2)[of d] assms(1) by linarith
  next
    case False
    with ne have "y + 1 \<le> YearFromDay d" by simp
    then have "DayFromYear (y + 1) \<le> DayFromYear (YearFromDay d)"
      by (rule DayFromYear_mono)
    then show False using YearFromDay_bounds(1)[of d] assms(2) by linarith
  qed
qed

lemma DayWithinYear_range:
  "0 \<le> DayWithinYear d" "DayWithinYear d < 365 + leapDays (YearFromDay d)"
  using YearFromDay_bounds[of d] DayFromYear_Suc[of "YearFromDay d"]
  by (simp_all add: DayWithinYear_def)

lemma MonthFromDay_range: "0 \<le> MonthFromDay d" "MonthFromDay d \<le> 11"
  by (simp_all add: MonthFromDay_def Let_def)

lemma month_cases:
  fixes m :: int
  assumes "0 \<le> m" "m \<le> 11"
  obtains "m = 0" | "m = 1" | "m = 2" | "m = 3" | "m = 4" | "m = 5" | "m = 6"
    | "m = 7" | "m = 8" | "m = 9" | "m = 10" | "m = 11"
proof -
  have "m = 0 \<or> m = 1 \<or> m = 2 \<or> m = 3 \<or> m = 4 \<or> m = 5 \<or> m = 6
      \<or> m = 7 \<or> m = 8 \<or> m = 9 \<or> m = 10 \<or> m = 11"
    using assms by presburger
  then show thesis using that by blast
qed

lemma MonthFromDay_lower:
  "daysBeforeMonth (YearFromDay d) (MonthFromDay d) \<le> DayWithinYear d"
  using DayWithinYear_range(1)[of d] leapDays_range[of "YearFromDay d"]
  by (simp add: MonthFromDay_def Let_def daysBeforeMonth_def)

lemma MonthFromDay_upper:
  "MonthFromDay d < 11 \<Longrightarrow>
   DayWithinYear d < daysBeforeMonth (YearFromDay d) (MonthFromDay d + 1)"
  by (simp add: MonthFromDay_def Let_def daysBeforeMonth_def split: if_splits)

lemma div_mod_12:
  fixes j m :: int
  assumes "0 \<le> m" "m \<le> 11"
  shows "(12 * j + m) div 12 = j" "(12 * j + m) mod 12 = m"
proof -
  have e: "12 * j + m = 12 * j + m" by simp
  have lt: "m < 12" using assms by simp
  show "(12 * j + m) div 12 = j" using int_div_pos_eq[OF e assms(1) lt] .
  show "(12 * j + m) mod 12 = m" using int_mod_pos_eq[OF e assms(1) lt] .
qed

lemma firstDay_ym:
  assumes "0 \<le> m" "m \<le> 11"
  shows "firstDay (12 * j + m) = DayFromYear (1970 + j) + daysBeforeMonth (1970 + j) m"
  unfolding firstDay_def MakeDay_def Let_def div_mod_12[OF assms] by simp

lemma firstDay_next_year:
  "firstDay (12 * j + 12) = DayFromYear (1970 + j + 1)"
proof -
  have "12 * j + 12 = 12 * (j + 1) + 0" by simp
  then have "firstDay (12 * j + 12) = firstDay (12 * (j + 1) + 0)" by (rule arg_cong)
  also have "\<dots> = DayFromYear (1970 + (j + 1)) + daysBeforeMonth (1970 + (j + 1)) 0"
    by (rule firstDay_ym) simp_all
  finally show ?thesis by (simp add: daysBeforeMonth_def add.assoc)
qed

lemma firstDay_monthIndex:
  "firstDay (monthIndex d) =
   DayFromYear (YearFromDay d) + daysBeforeMonth (YearFromDay d) (MonthFromDay d)"
  unfolding monthIndex_def firstDay_ym[OF MonthFromDay_range] by simp

lemma firstDay_monthIndex_le: "firstDay (monthIndex d) \<le> d"
  using MonthFromDay_lower[of d] by (simp add: firstDay_monthIndex DayWithinYear_def)

lemma firstDay_monthIndex_gt: "d < firstDay (monthIndex d + 1)"
proof (cases "MonthFromDay d < 11")
  case True
  then have r: "0 \<le> MonthFromDay d + 1" "MonthFromDay d + 1 \<le> 11"
    using MonthFromDay_range(1)[of d] by simp_all
  have "monthIndex d + 1 = 12 * (YearFromDay d - 1970) + (MonthFromDay d + 1)"
    unfolding monthIndex_def by (simp only: add.assoc)
  then have "firstDay (monthIndex d + 1) =
      firstDay (12 * (YearFromDay d - 1970) + (MonthFromDay d + 1))"
    by (rule arg_cong)
  also have "\<dots> = DayFromYear (1970 + (YearFromDay d - 1970))
      + daysBeforeMonth (1970 + (YearFromDay d - 1970)) (MonthFromDay d + 1)"
    by (rule firstDay_ym[OF r])
  finally show ?thesis using MonthFromDay_upper[OF True]
    by (simp add: DayWithinYear_def)
next
  case False
  then have "MonthFromDay d = 11" using MonthFromDay_range(2)[of d] by simp
  then have "monthIndex d + 1 = 12 * (YearFromDay d - 1970) + 12"
    unfolding monthIndex_def by simp
  then have "firstDay (monthIndex d + 1) = firstDay (12 * (YearFromDay d - 1970) + 12)"
    by (rule arg_cong)
  also have "\<dots> = DayFromYear (1970 + (YearFromDay d - 1970) + 1)"
    by (rule firstDay_next_year)
  finally show ?thesis using YearFromDay_bounds(2)[of d] by simp
qed

lemma daysBeforeMonth_step:
  assumes "0 \<le> m" "m \<le> 10"
  shows "daysBeforeMonth y m + 28 \<le> daysBeforeMonth y (m + 1)"
    "daysBeforeMonth y (m + 1) \<le> daysBeforeMonth y m + 31"
proof -
  have "m \<le> 11" using assms by simp
  with assms(1) show "daysBeforeMonth y m + 28 \<le> daysBeforeMonth y (m + 1)"
    using assms(2) leapDays_range[of y]
    by (cases m rule: month_cases) (simp_all add: daysBeforeMonth_def)
  from \<open>0 \<le> m\<close> \<open>m \<le> 11\<close> show "daysBeforeMonth y (m + 1) \<le> daysBeforeMonth y m + 31"
    using assms(2) leapDays_range[of y]
    by (cases m rule: month_cases) (simp_all add: daysBeforeMonth_def)
qed

lemma firstDay_step: "firstDay k + 28 \<le> firstDay (k + 1)" "firstDay (k + 1) \<le> firstDay k + 31"
proof -
  define j where "j = k div 12"
  define m where "m = k mod 12"
  have m: "0 \<le> m" "m \<le> 11" by (simp_all add: m_def) 
  have k: "k = 12 * j + m" by (simp add: j_def m_def)
  have fk: "firstDay k = DayFromYear (1970 + j) + daysBeforeMonth (1970 + j) m"
    unfolding k by (rule firstDay_ym[OF m])
  have "firstDay k + 28 \<le> firstDay (k + 1) \<and> firstDay (k + 1) \<le> firstDay k + 31"
  proof (cases "m \<le> 10")
    case True
    then have r: "0 \<le> m + 1" "m + 1 \<le> 11" using m by simp_all
    have "firstDay (k + 1) = firstDay (12 * j + (m + 1))"
      unfolding k by (simp only: add.assoc)
    then have "firstDay (k + 1) = DayFromYear (1970 + j) + daysBeforeMonth (1970 + j) (m + 1)"
      by (simp only: firstDay_ym[OF r, of j])
    then show ?thesis using fk daysBeforeMonth_step[OF m(1) True, of "1970 + j"] by simp
  next
    case False
    then have m11: "m = 11" using m by simp
    have "k + 1 = 12 * j + 12" using k m11 by simp
    then have "firstDay (k + 1) = DayFromYear (1970 + j + 1)"
      by (simp only: firstDay_next_year[of j])
    then show ?thesis using fk m11 DayFromYear_Suc[of "1970 + j"]
      by (simp add: daysBeforeMonth_def)
  qed
  then show "firstDay k + 28 \<le> firstDay (k + 1)" "firstDay (k + 1) \<le> firstDay k + 31"
    by simp_all
qed

lemma firstDay_mono_nat: "firstDay k + 28 * int n \<le> firstDay (k + int n)"
proof (induction n)
  case 0
  show ?case by simp
next
  case (Suc n)
  have "firstDay (k + int (Suc n)) = firstDay (k + int n + 1)" by (simp add: ac_simps)
  then show ?case using Suc firstDay_step(1)[of "k + int n"] by simp
qed

lemma firstDay_mono: "k \<le> k' \<Longrightarrow> firstDay k \<le> firstDay k'"
  using firstDay_mono_nat[of k "nat (k' - k)"] by simp

lemma firstDay_strict: "k < k' \<Longrightarrow> firstDay k < firstDay k'"
  using firstDay_mono[of "k + 1" k'] firstDay_step(1)[of k] by simp

lemma monthIndex_unique:
  assumes "firstDay k \<le> d" "d < firstDay (k + 1)"
  shows "monthIndex d = k"
proof (rule ccontr)
  assume ne: "monthIndex d \<noteq> k"
  show False
  proof (cases "monthIndex d < k")
    case True
    then have "firstDay (monthIndex d + 1) \<le> firstDay k" by (intro firstDay_mono) simp
    then show False using firstDay_monthIndex_gt[of d] assms(1) by linarith
  next
    case False
    with ne have "k + 1 \<le> monthIndex d" by simp
    then have "firstDay (k + 1) \<le> firstDay (monthIndex d)" by (rule firstDay_mono)
    then show False using firstDay_monthIndex_le[of d] assms(2) by linarith
  qed
qed

lemma monthIndex_le_iff: "monthIndex a \<le> monthIndex b \<longleftrightarrow> firstDay (monthIndex a) \<le> b"
proof
  assume "monthIndex a \<le> monthIndex b"
  then have "firstDay (monthIndex a) \<le> firstDay (monthIndex b)" by (rule firstDay_mono)
  then show "firstDay (monthIndex a) \<le> b" using firstDay_monthIndex_le[of b] by linarith
next
  assume h: "firstDay (monthIndex a) \<le> b"
  show "monthIndex a \<le> monthIndex b"
  proof (rule ccontr)
    assume "\<not> monthIndex a \<le> monthIndex b"
    then have "monthIndex b + 1 \<le> monthIndex a" by simp
    then have "firstDay (monthIndex b + 1) \<le> firstDay (monthIndex a)" by (rule firstDay_mono)
    then show False using firstDay_monthIndex_gt[of b] h by linarith
  qed
qed

lemma DateFromDay_eq: "DateFromDay d = d - firstDay (monthIndex d) + 1"
  by (simp add: DateFromDay_def firstDay_monthIndex DayWithinYear_def)

lemma MakeDay_firstDay: "MakeDay y m dt = firstDay (12 * (y - 1970) + m) + dt - 1"
proof -
  have "(12 * (y - 1970) + m) div 12 = (y - 1970) + m div 12"
    by (metis add.commute div_mult_self2 zero_neq_numeral)
  moreover have "(12 * (y - 1970) + m) mod 12 = m mod 12"
    by (metis add.commute mod_mult_self4)
  ultimately show ?thesis unfolding MakeDay_def firstDay_def Let_def by simp
qed

lemma monthIndex_ym:
  "12 * (YearFromDay d - 1970) + MonthFromDay d = monthIndex d"
  by (simp add: monthIndex_def)

section \<open>Properties of days and time values\<close>

lemma msPerDay_pos: "0 < msPerDay"
  by (simp add: msPerDay_def)

lemma TimeWithinDay_range: "0 \<le> TimeWithinDay t" "TimeWithinDay t < msPerDay"
  using msPerDay_pos by (simp_all add: TimeWithinDay_def)

lemma Day_decomp: "Day t * msPerDay + TimeWithinDay t = t"
  by (simp add: Day_def TimeWithinDay_def)

lemma Day_MakeDate:
  assumes "0 \<le> r" "r < msPerDay"
  shows "Day (MakeDate x r) = x" "TimeWithinDay (MakeDate x r) = r"
proof -
  have e: "MakeDate x r = msPerDay * x + r" by (simp add: MakeDate_def mult.commute)
  show "Day (MakeDate x r) = x" unfolding Day_def using int_div_pos_eq[OF e assms] .
  show "TimeWithinDay (MakeDate x r) = r"
    unfolding TimeWithinDay_def using int_mod_pos_eq[OF e assms] .
qed

lemma Day_shift:
  assumes "0 \<le> r" "r < msPerDay"
  shows "Day (x * msPerDay + r) = x"
  using Day_MakeDate(1)[OF assms, of x] by (simp add: MakeDate_def)

lemma Day_mono: "a \<le> b \<Longrightarrow> Day a \<le> Day b"
  unfolding Day_def using msPerDay_pos by (simp add: zdiv_mono1)

lemma Day_mult_le: "Day t * msPerDay \<le> t"
  using Day_decomp[of t] TimeWithinDay_range(1)[of t] by linarith

lemma Day_mult_gt: "t < (Day t + 1) * msPerDay"
  using Day_decomp[of t] TimeWithinDay_range(2)[of t] by (simp add: algebra_simps)

lemma le_Day_iff: "x \<le> Day t \<longleftrightarrow> x * msPerDay \<le> t"
proof
  assume "x \<le> Day t"
  then have "x * msPerDay \<le> Day t * msPerDay" using msPerDay_pos by simp
  then show "x * msPerDay \<le> t" using Day_mult_le[of t] by linarith
next
  assume h: "x * msPerDay \<le> t"
  have "Day (x * msPerDay) \<le> Day t" using h by (rule Day_mono)
  moreover have "Day (x * msPerDay) = x" using Day_shift[of 0 x] msPerDay_pos by simp
  ultimately show "x \<le> Day t" by simp
qed

lemma MakeDay_of_time:
  "MakeDay (YearFromTime t) (MonthFromTime t + n) dt = firstDay (monthIndex (Day t) + n) + dt - 1"
proof -
  have "12 * (YearFromTime t - 1970) + (MonthFromTime t + n) = monthIndex (Day t) + n"
    unfolding monthIndex_def YearFromTime_def MonthFromTime_def by (simp only: add.assoc)
  then show ?thesis by (simp only: MakeDay_firstDay)
qed

lemma MakeDay_of_time0:
  "MakeDay (YearFromTime t) (MonthFromTime t) dt = firstDay (monthIndex (Day t)) + dt - 1"
  using MakeDay_of_time[of t 0 dt] by simp

lemma TimeClip_Some: "\<bar>t\<bar> \<le> maxTime \<Longrightarrow> TimeClip t = Some t"
  by (simp add: TimeClip_def)

lemma TimeClip_SomeD: "TimeClip t = Some u \<Longrightarrow> u = t"
  by (simp add: TimeClip_def split: if_splits)

lemma TimeClip_cases:
  obtains "TimeClip t = None" | "TimeClip t = Some t"
  by (cases "maxTime < \<bar>t\<bar>") (simp_all add: TimeClip_def)

lemma MakeTime_last: "MakeTime 23 59 59 999 = msPerDay - 1"
  by (simp add: MakeTime_def msPerDay_def)

lemma monthIndex_last_day: "monthIndex (firstDay (k + 1) - 1) = k"
  by (rule monthIndex_unique) (use firstDay_step(1)[of k] in simp_all)

lemma monthIndex_firstDay_plus:
  assumes "0 \<le> n" "n < 28"
  shows "monthIndex (firstDay k + n) = k"
  by (rule monthIndex_unique) (use assms firstDay_step(1)[of k] in simp_all)

lemma ym_of_firstDay:
  "YearFromDay (firstDay k) = 1970 + k div 12" "MonthFromDay (firstDay k) = k mod 12"
proof -
  have "monthIndex (firstDay k + 0) = k" by (rule monthIndex_firstDay_plus) simp_all
  then have e: "12 * (YearFromDay (firstDay k) - 1970) + MonthFromDay (firstDay k) = k"
    by (simp add: monthIndex_def)
  have "(12 * (YearFromDay (firstDay k) - 1970) + MonthFromDay (firstDay k)) div 12
      = YearFromDay (firstDay k) - 1970"
    by (rule div_mod_12(1)[OF MonthFromDay_range])
  then have "k div 12 = YearFromDay (firstDay k) - 1970" unfolding e .
  then show "YearFromDay (firstDay k) = 1970 + k div 12" by simp
  have "(12 * (YearFromDay (firstDay k) - 1970) + MonthFromDay (firstDay k)) mod 12
      = MonthFromDay (firstDay k)"
    by (rule div_mod_12(2)[OF MonthFromDay_range])
  then show "MonthFromDay (firstDay k) = k mod 12" unfolding e by simp
qed

section \<open>Properties of the time zone\<close>

text \<open>A midnight is not strictly between two times of the same day.\<close>

lemma same_day_midnight:
  assumes "Day a = Day b" "a < x * msPerDay"
  shows "b < x * msPerDay"
proof (rule ccontr)
  assume "\<not> b < x * msPerDay"
  then have "x * msPerDay \<le> b" by simp
  then have "x \<le> Day b" by (simp only: le_Day_iff)
  then have "x \<le> Day a" using assms(1) by simp
  then have "x * msPerDay \<le> a" by (simp only: le_Day_iff)
  then show False using assms(2) by simp
qed

lemma wellFormed_offset: "wellFormed off ts \<Longrightarrow> \<bar>off\<bar> < msPerDay"
  by (cases "(off, ts)" rule: wellFormed.cases) auto

lemma wellFormed_tail: "wellFormed off ((T, off') # rest) \<Longrightarrow> wellFormed off' rest"
  by (cases rest) auto

lemma wellFormed_next:
  "wellFormed off ((T, off') # (T', off'') # rest) \<Longrightarrow> T + 2 * msPerDay \<le> T'"
  by simp

lemma offsetAt_bound: "wellFormed off ts \<Longrightarrow> \<bar>offsetAt off ts t\<bar> < msPerDay"
proof (induction ts arbitrary: off)
  case Nil then show ?case by simp
next
  case (Cons a ts)
  obtain T off' where a: "a = (T, off')" by (cases a)
  show ?case using Cons.IH[of off'] Cons.prems wellFormed_tail[of off T off' ts]
      wellFormed_offset[of off "a # ts"] unfolding a by simp
qed

lemma offsetFor_bound: "wellFormed off ts \<Longrightarrow> \<bar>offsetFor off ts t\<bar> < msPerDay"
proof (induction ts arbitrary: off)
  case Nil then show ?case by simp
next
  case (Cons a ts)
  obtain T off' where a: "a = (T, off')" by (cases a)
  show ?case using Cons.IH[of off'] Cons.prems wellFormed_tail[of off T off' ts]
      wellFormed_offset[of off "a # ts"] unfolding a by simp
qed

text \<open>In the part of the zone after a change, up to two days after it the offset is the new one.\<close>

lemma offsetAt_first:
  assumes "wellFormed off ((T, off') # rest)" "T \<le> t" "t < T + 2 * msPerDay"
  shows "offsetAt off ((T, off') # rest) t = off'"
proof (cases rest)
  case Nil then show ?thesis using assms by simp
next
  case (Cons b rest')
  obtain T' off'' where b: "b = (T', off'')" by (cases b)
  have "T + 2 * msPerDay \<le> T'" using assms(1) unfolding Cons b by simp
  then show ?thesis using assms unfolding Cons b by simp
qed

lemma offsetFor_ge:
  assumes "wellFormed off ((T, off') # rest)" "T + off' \<le> x"
  shows "T \<le> x - offsetFor off' rest x"
proof (cases rest)
  case Nil then show ?thesis using assms by simp
next
  case (Cons b rest')
  obtain T' off'' where b: "b = (T', off'')" by (cases b)
  have sp: "T + 2 * msPerDay \<le> T'" using assms(1) unfolding Cons b by simp
  have w': "wellFormed off' ((T', off'') # rest')" using assms(1) unfolding Cons b by simp
  have o': "\<bar>off'\<bar> < msPerDay" using wellFormed_offset[OF w'] .
  show ?thesis
  proof (cases "x < T' + max off' off''")
    case True then show ?thesis using assms(2) unfolding Cons b by simp
  next
    case False
    have "\<bar>offsetFor off'' rest' x\<bar> < msPerDay"
      using offsetFor_bound[OF wellFormed_tail[OF w']] .
    then show ?thesis using False sp o' unfolding Cons b by simp
  qed
qed

text \<open>Local time after a change is at least the local time at the change.\<close>

lemma local_after:
  assumes "wellFormed off ((T, off') # rest)" "T \<le> t"
  shows "T + off' \<le> t + offsetAt off' rest t"
proof (cases "t < T + 2 * msPerDay")
  case True
  have "offsetAt off ((T, off') # rest) t = off'" using offsetAt_first[OF assms(1,2) True] .
  then have "offsetAt off' rest t = off'" using assms(2) by simp
  then show ?thesis using assms(2) by simp
next
  case False
  have "\<bar>offsetAt off' rest t\<bar> < msPerDay"
    using offsetAt_bound[OF wellFormed_tail[OF assms(1)]] .
  moreover have "\<bar>off'\<bar> < msPerDay" using wellFormed_offset[OF wellFormed_tail[OF assms(1)]] .
  ultimately show ?thesis using False by linarith
qed

text \<open>
  A midnight is not strictly inside the local times that a change of the clocks
  skips or repeats.
\<close>

lemma withinDay_outside:
  assumes "withinDay off ((T, off') # rest)"
  shows "x * msPerDay \<le> T + min off off' \<or> T + max off off' \<le> x * msPerDay"
proof (rule ccontr)
  assume n: "\<not> (x * msPerDay \<le> T + min off off' \<or> T + max off off' \<le> x * msPerDay)"
  consider (gap) "off < off'" | (rep) "off' < off" | (same) "off = off'" by linarith
  then show False
  proof cases
    case gap
    then have d: "Day (T + off) = Day (T + off' + (off' - off) - 1)" using assms by simp
    have "T + off < x * msPerDay" using n gap by simp
    then have "T + off' + (off' - off) - 1 < x * msPerDay" using same_day_midnight[OF d] by simp
    then show False using n gap by simp
  next
    case rep
    then have d: "Day (T + off') = Day (T + off - 1)" using assms by simp
    have "T + off' < x * msPerDay" using n rep by simp
    then have "T + off - 1 < x * msPerDay" using same_day_midnight[OF d] by simp
    then show False using n rep by simp
  next
    case same then show False using n by auto
  qed
qed

lemma withinDay_tail: "withinDay off ((T, off') # rest) \<Longrightarrow> withinDay off' rest"
  by simp

text \<open>
  The time value of a local midnight is the first time value whose local time has
  reached that midnight.
\<close>

lemma midnight_reached:
  assumes "wellFormed off ts" "withinDay off ts"
  shows "(x * msPerDay - offsetFor off ts (x * msPerDay) \<le> t)
         = (x * msPerDay \<le> t + offsetAt off ts t)"
  using assms
proof (induction ts arbitrary: off)
  case Nil
  then show ?case by auto
next
  case (Cons a ts)
  obtain T off' where a: "a = (T, off')" by (cases a)
  define B where "B = x * msPerDay"
  have w: "wellFormed off ((T, off') # ts)" using Cons.prems(1) unfolding a .
  have w': "wellFormed off' ts" using wellFormed_tail[OF w] .
  have r': "withinDay off' ts" using Cons.prems(2) unfolding a by simp
  have out: "B \<le> T + min off off' \<or> T + max off off' \<le> B"
    unfolding B_def using withinDay_outside[of off T off' ts x] Cons.prems(2) unfolding a by simp
  have ih: "(B - offsetFor off' ts B \<le> t) = (B \<le> t + offsetAt off' ts t)"
    unfolding B_def using Cons.IH[OF w' r'] .
  show ?case unfolding a B_def[symmetric]
  proof (cases "B < T + max off off'")
    case True
    then have lo: "B \<le> T + min off off'" using out by simp
    show "(B - offsetFor off ((T, off') # ts) B \<le> t) = (B \<le> t + offsetAt off ((T, off') # ts) t)"
    proof (cases "t < T")
      case True
      then show ?thesis using \<open>B < T + max off off'\<close> by auto
    next
      case False
      then have "T + off' \<le> t + offsetAt off' ts t" using local_after[OF w] by simp
      then show ?thesis using False True lo by auto
    qed
  next
    case False
    then have hi: "T + max off off' \<le> B" by simp
    have ge: "T \<le> B - offsetFor off' ts B" using offsetFor_ge[OF w, of B] hi by simp
    show "(B - offsetFor off ((T, off') # ts) B \<le> t) = (B \<le> t + offsetAt off ((T, off') # ts) t)"
    proof (cases "t < T")
      case True
      then show ?thesis using False hi ge by auto
    next
      case f: False
      then show ?thesis using False ih by simp
    qed
  qed
qed

text \<open>
  The time value of the last millisecond before a local midnight is the last time
  value whose local time is before that midnight, unless a change of the clocks ends
  the skipped or repeated local times at that midnight.
\<close>

lemma midnight_end:
  assumes "wellFormed off ts" "withinDay off ts" "endsNotAt (x * msPerDay) off ts"
  shows "(t \<le> x * msPerDay - 1 - offsetFor off ts (x * msPerDay - 1))
         = (t + offsetAt off ts t < x * msPerDay)"
  using assms
proof (induction ts arbitrary: off)
  case Nil
  then show ?case by auto
next
  case (Cons a ts)
  obtain T off' where a: "a = (T, off')" by (cases a)
  define B where "B = x * msPerDay"
  have w: "wellFormed off ((T, off') # ts)" using Cons.prems(1) unfolding a .
  have w': "wellFormed off' ts" using wellFormed_tail[OF w] .
  have r': "withinDay off' ts" using Cons.prems(2) unfolding a by simp
  have e': "endsNotAt B off' ts" using Cons.prems(3) unfolding a B_def by simp
  have ne: "off = off' \<or> T + max off off' \<noteq> B" using Cons.prems(3) unfolding a B_def by simp
  have out: "B \<le> T + min off off' \<or> T + max off off' \<le> B"
    unfolding B_def using withinDay_outside[of off T off' ts x] Cons.prems(2) unfolding a by simp
  have out': "B \<le> T + min off off' \<or> T + max off off' < B" using out ne by auto
  have ih: "(t \<le> B - 1 - offsetFor off' ts (B - 1)) = (t + offsetAt off' ts t < B)"
    unfolding B_def using Cons.IH[OF w' r'] e' unfolding B_def by simp
  show ?case unfolding a B_def[symmetric]
  proof (cases "B - 1 < T + max off off'")
    case True
    then have lo: "B \<le> T + min off off'" using out' by simp
    show "(t \<le> B - 1 - offsetFor off ((T, off') # ts) (B - 1))
          = (t + offsetAt off ((T, off') # ts) t < B)"
    proof (cases "t < T")
      case True
      then show ?thesis using \<open>B - 1 < T + max off off'\<close> by auto
    next
      case False
      then have "T + off' \<le> t + offsetAt off' ts t" using local_after[OF w] by simp
      then show ?thesis using False True lo by auto
    qed
  next
    case False
    then have hi: "T + max off off' \<le> B - 1" by simp
    have ge: "T \<le> B - 1 - offsetFor off' ts (B - 1)" using offsetFor_ge[OF w, of "B - 1"] hi by simp
    show "(t \<le> B - 1 - offsetFor off ((T, off') # ts) (B - 1))
          = (t + offsetAt off ((T, off') # ts) t < B)"
    proof (cases "t < T")
      case True
      then show ?thesis using False hi ge by auto
    next
      case f: False
      then show ?thesis using False ih by simp
    qed
  qed
qed

text \<open>
  Writing a local time and reading it back gives a local time of the same day: the
  same local time, or a later one of that day when the clocks skipped it.
\<close>

lemma local_day_kept:
  assumes "wellFormed off ts" "withinDay off ts"
  shows "Day (x - offsetFor off ts x + offsetAt off ts (x - offsetFor off ts x)) = Day x"
  using assms
proof (induction ts arbitrary: off)
  case Nil
  then show ?case by simp
next
  case (Cons a ts)
  obtain T off' where a: "a = (T, off')" by (cases a)
  have w: "wellFormed off ((T, off') # ts)" using Cons.prems(1) unfolding a .
  have w': "wellFormed off' ts" using wellFormed_tail[OF w] .
  have r: "withinDay off ((T, off') # ts)" using Cons.prems(2) unfolding a .
  have r': "withinDay off' ts" using r by simp
  have o: "\<bar>off\<bar> < msPerDay" using wellFormed_offset[OF w] .
  have o': "\<bar>off'\<bar> < msPerDay" using wellFormed_offset[OF w'] .
  show ?case unfolding a
  proof (cases "x < T + max off off'")
    case True
    then have f: "offsetFor off ((T, off') # ts) x = off" by simp
    show "Day (x - offsetFor off ((T, off') # ts) x
               + offsetAt off ((T, off') # ts) (x - offsetFor off ((T, off') # ts) x)) = Day x"
    proof (cases "x - off < T")
      case True
      then show ?thesis unfolding f by simp
    next
      case False
      then have gap: "off < off'" "T + off \<le> x" "x < T + off'" using True by auto
      have "x - off < T + 2 * msPerDay" using gap o o' by linarith
      then have "offsetAt off ((T, off') # ts) (x - off) = off'"
        using offsetAt_first[OF w, of "x - off"] False by simp
      then have e: "x - offsetFor off ((T, off') # ts) x
               + offsetAt off ((T, off') # ts) (x - offsetFor off ((T, off') # ts) x)
               = x + (off' - off)" unfolding f by simp
      have d: "Day (T + off) = Day (T + off' + (off' - off) - 1)" using r gap(1) by simp
      have "Day (T + off) \<le> Day x" using gap(2) by (rule Day_mono)
      moreover have "Day x \<le> Day (x + (off' - off))" using gap(1) by (intro Day_mono) simp
      moreover have "Day (x + (off' - off)) \<le> Day (T + off' + (off' - off) - 1)"
        using gap(3) by (intro Day_mono) simp
      ultimately show ?thesis unfolding e using d by linarith
    qed
  next
    case False
    then have f: "offsetFor off ((T, off') # ts) x = offsetFor off' ts x" by simp
    have "T + off' \<le> x" using False by simp
    then have ge: "T \<le> x - offsetFor off' ts x" using offsetFor_ge[OF w] by simp
    show "Day (x - offsetFor off ((T, off') # ts) x
               + offsetAt off ((T, off') # ts) (x - offsetFor off ((T, off') # ts) x)) = Day x"
      unfolding f using ge Cons.IH[OF w' r'] by simp
  qed
qed

subsection \<open>The conversions of a zone\<close>

lemma zone_wellFormed: "wellFormed (initialOffset tz) (changes tz)"
  using Rep_Zone[of tz] by (simp add: initialOffset_def changes_def)

lemma makeZone_inverse:
  assumes "wellFormed off cs"
  shows "initialOffset (makeZone off cs) = off" "changes (makeZone off cs) = cs"
  using assms by (simp_all add: makeZone_def initialOffset_def changes_def Abs_Zone_inverse)

lemma LocalTime_bounds: "t - msPerDay < LocalTime tz t" "LocalTime tz t < t + msPerDay"
  using offsetAt_bound[OF zone_wellFormed, of tz t] by (simp_all add: LocalTime_def)

lemma UTC_bounds: "x - msPerDay < UTC tz x" "UTC tz x < x + msPerDay"
  using offsetFor_bound[OF zone_wellFormed, of tz x] by (simp_all add: UTC_def)

lemma local_day_UTC: "changesWithinDay tz \<Longrightarrow> Day (LocalTime tz (UTC tz x)) = Day x"
  unfolding changesWithinDay_def LocalTime_def UTC_def
  by (rule local_day_kept[OF zone_wellFormed])

lemma local_day_ofLocal:
  assumes "changesWithinDay tz" "0 \<le> r" "r < msPerDay"
  shows "Day (LocalTime tz (ofLocal tz x r)) = x"
  unfolding ofLocal_def local_day_UTC[OF assms(1)] using Day_shift[OF assms(2,3)] .

lemma day_reached:
  assumes "changesWithinDay tz"
  shows "(ofLocal tz x 0 \<le> t) = (x \<le> Day (LocalTime tz t))"
proof -
  have "(x * msPerDay - offsetFor (initialOffset tz) (changes tz) (x * msPerDay) \<le> t)
        = (x * msPerDay \<le> t + offsetAt (initialOffset tz) (changes tz) t)"
    using assms unfolding changesWithinDay_def by (rule midnight_reached[OF zone_wellFormed])
  then show ?thesis unfolding ofLocal_def UTC_def LocalTime_def le_Day_iff by simp
qed

lemma day_ended:
  assumes "changesWithinDay tz" "endsNotAt (x * msPerDay) (initialOffset tz) (changes tz)"
  shows "(t \<le> ofLocal tz (x - 1) (msPerDay - 1)) = (Day (LocalTime tz t) < x)"
proof -
  have e: "(x - 1) * msPerDay + (msPerDay - 1) = x * msPerDay - 1" by (simp add: algebra_simps)
  have "(t \<le> x * msPerDay - 1 - offsetFor (initialOffset tz) (changes tz) (x * msPerDay - 1))
        = (t + offsetAt (initialOffset tz) (changes tz) t < x * msPerDay)"
    using assms unfolding changesWithinDay_def by (intro midnight_end[OF zone_wellFormed])
  moreover have "(t + offsetAt (initialOffset tz) (changes tz) t < x * msPerDay)
        = (\<not> x \<le> Day (t + offsetAt (initialOffset tz) (changes tz) t))"
    unfolding le_Day_iff by auto
  ultimately show ?thesis unfolding ofLocal_def UTC_def LocalTime_def e by auto
qed

section \<open>Properties of the numbers\<close>

lemma bitLength_nonneg: "0 \<le> bitLength n"
proof (induction n rule: bitLength.induct)
  case (1 n)
  show ?case
  proof (cases "n \<le> 0")
    case True then show ?thesis by (simp add: bitLength.simps)
  next
    case False
    then show ?thesis using 1 bitLength.simps[of n] by simp
  qed
qed

lemma bitLength_bounds:
  "0 < n \<Longrightarrow> 2 ^ nat (bitLength n - 1) \<le> n \<and> n < 2 ^ nat (bitLength n)"
proof (induction n rule: bitLength.induct)
  case (1 n)
  have b: "bitLength n = 1 + bitLength (n div 2)" using 1(2) bitLength.simps[of n] by simp
  show ?case
  proof (cases "n = 1")
    case True
    have "bitLength (1 div 2) = 0" by (simp add: bitLength.simps)
    then show ?thesis using b True by simp
  next
    case False
    then have h: "0 < n div 2" using 1(2) by simp
    then have ih: "2 ^ nat (bitLength (n div 2) - 1) \<le> n div 2" "n div 2 < 2 ^ nat (bitLength (n div 2))"
      using 1(1) 1(2) by simp_all
    have p: "1 \<le> bitLength (n div 2)"
      using h bitLength.simps[of "n div 2"] bitLength_nonneg[of "n div 2 div 2"] by simp
    have e1: "nat (bitLength n - 1) = Suc (nat (bitLength (n div 2) - 1))" using b p by simp
    have e2: "nat (bitLength n) = Suc (nat (bitLength (n div 2)))" using b p by simp
    have "2 * 2 ^ nat (bitLength (n div 2) - 1) \<le> 2 * (n div 2)" using ih(1) by simp
    also have "\<dots> \<le> n" by simp
    finally have l: "2 ^ nat (bitLength n - 1) \<le> n" unfolding e1 by simp
    have "n div 2 + 1 \<le> 2 ^ nat (bitLength (n div 2))" using ih(2) by simp
    then have "2 * (n div 2) + 2 \<le> 2 * 2 ^ nat (bitLength (n div 2))" by simp
    moreover have "n < 2 * (n div 2) + 2" by linarith
    ultimately have u: "n < 2 ^ nat (bitLength n)" unfolding e2 by simp
    show ?thesis using l u by simp
  qed
qed

lemma roundHalfEven_int: "roundHalfEven (of_int k) = k"
  by (simp add: roundHalfEven_def)

text \<open>An integer of at most 53 bits is a double.\<close>

lemma roundToDouble_int:
  assumes "\<bar>n\<bar> \<le> 2 ^ 53"
  shows "roundToDouble (of_int n) = Finite (of_int n)"
proof (cases "n = 0")
  case True then show ?thesis by (simp add: roundToDouble_def)
next
  case False
  define m where "m = \<bar>n\<bar>"
  have m: "0 < m" "m \<le> 2 ^ 53" using False assms by (simp_all add: m_def)
  define b where "b = bitLength m"
  have bb: "2 ^ nat (b - 1) \<le> m" "m < 2 ^ nat b" using bitLength_bounds[OF m(1)] by (simp_all add: b_def)
  have b1: "1 \<le> b"
  proof (rule ccontr)
    assume "\<not> 1 \<le> b" then have "nat b = 0" by simp
    then show False using bb(2) m(1) by simp
  qed
  have b54: "b \<le> 54"
  proof (rule ccontr)
    assume "\<not> b \<le> 54"
    then have "54 \<le> nat (b - 1)" by simp
    then have "(2::int) ^ 54 \<le> 2 ^ nat (b - 1)" by (intro power_increasing) simp_all
    then show False using bb(1) m(2) by simp
  qed
  have ax: "\<bar>real_of_int n\<bar> = of_int m" by (simp add: m_def)
  have fl: "floorLog2 \<bar>real_of_int n\<bar> = b - 1"
    unfolding ax floorLog2_def b_def using m(1) by simp
  have e: "max (floorLog2 \<bar>real_of_int n\<bar> - 52) (- 1074) = b - 53" unfolding fl using b1 by simp
  have nz: "real_of_int n \<noteq> 0" using False by simp
  have small: "\<bar>real_of_int n\<bar> < 2 ^ 1024"
  proof -
    have "real_of_int m \<le> 2 ^ 53" using m(2) by (metis of_int_le_iff of_int_numeral of_int_power)
    also have "\<dots> < (2::real) ^ 1024" by (intro power_strict_increasing) simp_all
    finally show ?thesis unfolding ax .
  qed
  have r: "of_int (roundHalfEven (real_of_int n / pow2 (b - 53))) * pow2 (b - 53) = real_of_int n"
  proof (cases "b \<le> 53")
    case True
    define j where "j = nat (53 - b)"
    have p: "pow2 (b - 53) = 1 / 2 ^ j"
    proof (cases "b = 53")
      case True then show ?thesis by (simp add: pow2_def j_def)
    next
      case False
      then have "\<not> 0 \<le> b - 53" using True by simp
      then show ?thesis by (simp add: pow2_def j_def)
    qed
    have "real_of_int n / pow2 (b - 53) = of_int (n * 2 ^ j)" unfolding p by simp
    then have "roundHalfEven (real_of_int n / pow2 (b - 53)) = n * 2 ^ j"
      by (simp only: roundHalfEven_int)
    then show ?thesis unfolding p by simp
  next
    case False
    then have b: "b = 54" using b54 by simp
    have "(2::int) ^ 53 \<le> m" using bb(1) unfolding b by simp
    then have "m = 2 ^ 53" using m(2) by simp
    then consider "n = 2 ^ 53" | "n = - (2 ^ 53)" unfolding m_def by linarith
    then show ?thesis
    proof cases
      case 1
      then show ?thesis unfolding b by (simp add: pow2_def roundHalfEven_def)
    next
      case 2
      then show ?thesis unfolding b by (simp add: pow2_def roundHalfEven_def)
    qed
  qed
  show ?thesis unfolding roundToDouble_def Let_def e r using nz small by auto
qed

section \<open>Properties of the date functions\<close>

lemma days_le: "a \<le> b \<Longrightarrow> a * msPerDay \<le> b * msPerDay"
  using msPerDay_pos by simp

lemma local_split: "LocalTime tz t = Day (LocalTime tz t) * msPerDay + TimeWithinDay (LocalTime tz t)"
  by (simp only: Day_decomp)

lemma monthIndex_ge: "firstDay j \<le> d \<Longrightarrow> j \<le> monthIndex d"
proof (rule ccontr)
  assume h: "firstDay j \<le> d" and "\<not> j \<le> monthIndex d"
  then have "monthIndex d + 1 \<le> j" by simp
  then have "firstDay (monthIndex d + 1) \<le> firstDay j" by (rule firstDay_mono)
  then show False using firstDay_monthIndex_gt[of d] h by linarith
qed

lemma monthIndex_less: "d < firstDay j \<Longrightarrow> monthIndex d < j"
proof (rule ccontr)
  assume h: "d < firstDay j" and "\<not> monthIndex d < j"
  then have "j \<le> monthIndex d" by simp
  then have "firstDay j \<le> firstDay (monthIndex d)" by (rule firstDay_mono)
  then show False using firstDay_monthIndex_le[of d] h by linarith
qed

lemma firstDay_le_iff: "(firstDay j \<le> d) = (j \<le> monthIndex d)"
proof
  show "firstDay j \<le> d \<Longrightarrow> j \<le> monthIndex d" by (rule monthIndex_ge)
  show "j \<le> monthIndex d \<Longrightarrow> firstDay j \<le> d"
    using monthIndex_less[of d j] by (cases "firstDay j \<le> d") simp_all
qed

lemma local_day_in_month:
  "firstDay (monthOf tz t) \<le> Day (LocalTime tz t)"
  "Day (LocalTime tz t) < firstDay (monthOf tz t + 1)"
  unfolding monthOf_def by (rule firstDay_monthIndex_le, rule firstDay_monthIndex_gt)

lemma ofLocal_bounds:
  "x * msPerDay + r - msPerDay < ofLocal tz x r" "ofLocal tz x r < x * msPerDay + r + msPerDay"
  using UTC_bounds[where x = "x * msPerDay + r" and tz = tz] by (simp_all add: ofLocal_def)

text \<open>Where the first days of the month of a time value and of the next month are.\<close>

lemma local_month_bounds:
  "t - 32 * msPerDay < firstDay (monthOf tz t) * msPerDay"
  "firstDay (monthOf tz t) * msPerDay < t + msPerDay"
  "t - msPerDay < firstDay (monthOf tz t + 1) * msPerDay"
  "firstDay (monthOf tz t + 1) * msPerDay < t + 32 * msPerDay"
proof -
  define k where "k = monthOf tz t"
  define d where "d = Day (LocalTime tz t)"
  have d: "firstDay k \<le> d" "d < firstDay (k + 1)"
    unfolding k_def d_def by (rule local_day_in_month)+
  have s: "firstDay (k + 1) \<le> firstDay k + 31" by (rule firstDay_step)
  have l: "d * msPerDay \<le> LocalTime tz t" "LocalTime tz t < (d + 1) * msPerDay"
    unfolding d_def by (rule Day_mult_le, rule Day_mult_gt)
  have a: "firstDay k * msPerDay \<le> d * msPerDay" using d(1) by (rule days_le)
  have "d + 1 \<le> firstDay (k + 1)" using d(2) by simp
  then have b: "(d + 1) * msPerDay \<le> firstDay (k + 1) * msPerDay" by (rule days_le)
  have "firstDay (k + 1) * msPerDay \<le> (firstDay k + 31) * msPerDay" using s by (rule days_le)
  then have c: "firstDay (k + 1) * msPerDay \<le> firstDay k * msPerDay + 31 * msPerDay"
    by (simp add: algebra_simps)
  note z = LocalTime_bounds[where t = t and tz = tz]
  show "t - 32 * msPerDay < firstDay k * msPerDay" using a b c l z by linarith
  show "firstDay k * msPerDay < t + msPerDay" using a l z by linarith
  show "t - msPerDay < firstDay (k + 1) * msPerDay" using b l z by linarith
  show "firstDay (k + 1) * msPerDay < t + 32 * msPerDay" using a c l z by linarith
qed

lemma setDate_Some:
  "setDate tz (Some t) dt =
   TimeClip (ofLocal tz (firstDay (monthOf tz t) + dt - 1) (TimeWithinDay (LocalTime tz t)))"
  unfolding setDate_def Let_def option.case MakeDay_of_time0 monthOf_def
  by (simp add: MakeDate_def ofLocal_def)

lemma setMonth_Some:
  "setMonth tz (Some t) (MonthFromTime (LocalTime tz t) + n) dt =
   TimeClip (ofLocal tz (firstDay (monthOf tz t + n) + dt - 1) (TimeWithinDay (LocalTime tz t)))"
  unfolding setMonth_def Let_def option.case MakeDay_of_time monthOf_def
  by (simp add: MakeDate_def ofLocal_def)

lemma setFullYear_Some:
  "setFullYear tz (Some t) y m dt =
   TimeClip (ofLocal tz (MakeDay y m dt) (TimeWithinDay (LocalTime tz t)))"
  unfolding setFullYear_def Let_def option.case
  by (simp add: MakeDate_def ofLocal_def)

lemma setHours_Some:
  "setHours tz (Some t) h m s ms = TimeClip (ofLocal tz (Day (LocalTime tz t)) (MakeTime h m s ms))"
  unfolding setHours_def Let_def option.case
  by (simp add: MakeDate_def ofLocal_def)

lemma addMonths_one:
  fixes tz :: Zone and a :: int
  defines "k \<equiv> monthOf tz a"
  defines "r \<equiv> TimeWithinDay (LocalTime tz a)"
  defines "dm \<equiv> Day (LocalTime tz a) - firstDay k + 1"
  defines "e \<equiv> ofLocal tz (firstDay (k + 2) - 1) r"
  shows "addMonths tz (Some a) 1 =
     (if maxTime < \<bar>e\<bar> then None
      else if Day (LocalTime tz e) - firstDay (monthOf tz e) + 1 \<le> dm then Some e
      else TimeClip (ofLocal tz (firstDay (monthOf tz e) + dm - 1) r))"
proof -
  have gd: "getDate tz (Some a) = Some dm"
    unfolding getDate_def dm_def k_def monthOf_def DateFromTime_def DateFromDay_eq by simp
  have gm: "getMonth tz (Some a) = Some (MonthFromTime (LocalTime tz a))"
    by (simp add: getMonth_def)
  have "setMonth tz (Some a) (MonthFromTime (LocalTime tz a) + 2) 0 = TimeClip e"
    unfolding setMonth_Some e_def k_def r_def by simp
  then have sm: "setMonth tz (Some a) (MonthFromTime (LocalTime tz a) + 1 + 1) 0 = TimeClip e"
    by (simp add: add.assoc)
  have base: "addMonths tz (Some a) 1 =
      (case (getDate tz (TimeClip e), getFullYear tz (TimeClip e), getMonth tz (TimeClip e)) of
         (Some daysInMonth, Some y', Some m') \<Rightarrow>
            if daysInMonth \<le> dm then TimeClip e else setFullYear tz (Some a) y' m' dm
       | _ \<Rightarrow> None)"
    unfolding addMonths_def gd gm prod.case option.case sm Let_def by simp
  show ?thesis
  proof (cases "maxTime < \<bar>e\<bar>")
    case True
    then have "TimeClip e = None" by (simp add: TimeClip_def)
    then show ?thesis using True
      unfolding base by (simp add: getDate_def getFullYear_def getMonth_def)
  next
    case False
    then have tc: "TimeClip e = Some e" by (simp add: TimeClip_def)
    have gde: "getDate tz (Some e) = Some (Day (LocalTime tz e) - firstDay (monthOf tz e) + 1)"
      by (simp add: getDate_def DateFromTime_def DateFromDay_eq monthOf_def)
    have md: "MakeDay (YearFromTime (LocalTime tz e)) (MonthFromTime (LocalTime tz e)) dm
        = firstDay (monthOf tz e) + dm - 1"
      unfolding MakeDay_of_time0 monthOf_def ..
    have sf: "setFullYear tz (Some a) (YearFromTime (LocalTime tz e))
        (MonthFromTime (LocalTime tz e)) dm
        = TimeClip (ofLocal tz (firstDay (monthOf tz e) + dm - 1) r)"
      unfolding setFullYear_Some md r_def ..
    show ?thesis using False
      unfolding base tc gde
      by (simp add: getFullYear_def getMonth_def sf)
  qed
qed

text \<open>
  \<^verbatim>\<open>addMonths(date, 1)\<close> is later than \<open>date\<close> in every zone: the local time moves
  forward by 28 days at least and an offset is less than a day.
\<close>

lemma addMonths_increasing:
  assumes "addMonths tz (Some a) 1 = Some a'"
  shows "a < a'"
proof -
  define k where "k = monthOf tz a"
  define r where "r = TimeWithinDay (LocalTime tz a)"
  define d where "d = Day (LocalTime tz a)"
  define dm where "dm = d - firstDay k + 1"
  define e where "e = ofLocal tz (firstDay (k + 2) - 1) r"
  have r: "0 \<le> r" "r < msPerDay" unfolding r_def by (rule TimeWithinDay_range)+
  have D: "0 < msPerDay" by (rule msPerDay_pos)
  have lt: "d < firstDay (k + 1)" unfolding k_def d_def by (rule local_day_in_month(2))
  have ge: "firstDay k \<le> d" unfolding k_def d_def by (rule local_day_in_month(1))
  have s1: "firstDay k + 28 \<le> firstDay (k + 1)" by (rule firstDay_step)
  have "firstDay (k + 1) + 28 \<le> firstDay (k + 1 + 1)" by (rule firstDay_step)
  then have s2: "firstDay (k + 1) + 28 \<le> firstDay (k + 2)" by (simp add: add.assoc)
  have "LocalTime tz a = d * msPerDay + r" unfolding d_def r_def by (rule local_split)
  then have a_lt: "a < d * msPerDay + r + msPerDay" using LocalTime_bounds(1)[where t = a and tz = tz] by linarith
  have far: "d + 28 \<le> y \<Longrightarrow> a < ofLocal tz y r" for y
  proof -
    assume "d + 28 \<le> y"
    then have "(d + 28) * msPerDay \<le> y * msPerDay" by (rule days_le)
    then have "d * msPerDay + 28 * msPerDay \<le> y * msPerDay" by (simp add: algebra_simps)
    then show "a < ofLocal tz y r" using ofLocal_bounds(1)[where x = y and r = r and tz = tz] a_lt D by linarith
  qed
  have cases: "a' = e \<or> (\<not> maxTime < \<bar>e\<bar> \<and> a' = ofLocal tz (firstDay (monthOf tz e) + dm - 1) r)"
    using assms unfolding addMonths_one k_def[symmetric] r_def[symmetric] d_def[symmetric]
      dm_def[symmetric] e_def[symmetric]
    by (auto split: if_splits dest: TimeClip_SomeD)
  then show ?thesis
  proof
    assume h: "a' = e"
    have "d + 28 \<le> firstDay (k + 2) - 1" using lt s2 by simp
    then show ?thesis unfolding h e_def by (rule far)
  next
    assume h: "\<not> maxTime < \<bar>e\<bar> \<and> a' = ofLocal tz (firstDay (monthOf tz e) + dm - 1) r"
    have "(firstDay (k + 2) - 1) * msPerDay + r - msPerDay < e"
      unfolding e_def by (rule ofLocal_bounds)
    then have "(firstDay (k + 2) - 1) * msPerDay - 2 * msPerDay < LocalTime tz e"
      using LocalTime_bounds(1)[where t = e and tz = tz] r by linarith
    then have "(firstDay (k + 2) - 3) * msPerDay \<le> LocalTime tz e" by (simp add: algebra_simps)
    then have "firstDay (k + 2) - 3 \<le> Day (LocalTime tz e)" by (simp only: le_Day_iff)
    then have "firstDay (k + 1) \<le> Day (LocalTime tz e)" using s2 by simp
    then have "k + 1 \<le> monthOf tz e" unfolding monthOf_def by (rule monthIndex_ge)
    then have "firstDay (k + 1) \<le> firstDay (monthOf tz e)" by (rule firstDay_mono)
    then have "d + 28 \<le> firstDay (monthOf tz e) + dm - 1" unfolding dm_def using s1 by simp
    then show ?thesis using h far by simp
  qed
qed

termination monthsLoop
proof (relation "measure (\<lambda>(tz, expenses, currentDate, endDate, months).
          case (currentDate, endDate) of (Some a, Some b) \<Rightarrow> nat (b - a + 1) | _ \<Rightarrow> 0)")
  show "wf (measure (\<lambda>(tz, expenses, currentDate, endDate, months).
          case (currentDate, endDate) of (Some a, Some b) \<Rightarrow> nat (b - a + 1) | _ \<Rightarrow> 0))"
    by simp
next
  fix tz :: Zone and expenses :: "Expense list" and currentDate endDate :: Date
    and months :: "MonthlyExpenseData list" and x xa xb xc xd
  assume le: "date_le currentDate endDate"
  then obtain a b where ab: "currentDate = Some a" "endDate = Some b" "a \<le> b"
    by (auto simp: date_le_def split: option.splits)
  show "((tz, expenses, addMonths tz currentDate 1, endDate, months @ [xd]),
         (tz, expenses, currentDate, endDate, months))
        \<in> measure (\<lambda>(tz, expenses, currentDate, endDate, months).
          case (currentDate, endDate) of (Some a, Some b) \<Rightarrow> nat (b - a + 1) | _ \<Rightarrow> 0)"
  proof (cases "addMonths tz (Some a) 1")
    case None
    then show ?thesis using ab by simp
  next
    case (Some a')
    then have "a < a'" by (rule addMonths_increasing)
    then show ?thesis using ab Some by simp
  qed
qed

declare monthsLoop.simps [simp del]
subsection \<open>In a zone whose changes of the clocks stay within a day\<close>

lemma monthOf_firstDay:
  assumes "Day (LocalTime tz a) = firstDay k"
  shows "monthOf tz a = k"
  unfolding monthOf_def assms using monthIndex_firstDay_plus[of 0 k] by simp

lemma monthStart_le_iff:
  assumes "changesWithinDay tz"
  shows "(monthStart tz k \<le> t) = (k \<le> monthOf tz t)"
  unfolding monthStart_def day_reached[OF assms] monthOf_def by (rule firstDay_le_iff)

lemma monthEnd_ge_iff:
  assumes "changesWithinDay tz" "monthEndsCleanly tz k"
  shows "(t \<le> monthEnd tz k) = (monthOf tz t \<le> k)"
proof -
  have "(t \<le> monthEnd tz k) = (Day (LocalTime tz t) < firstDay (k + 1))"
    unfolding monthEnd_def using assms(2) unfolding monthEndsCleanly_def
    by (rule day_ended[OF assms(1)])
  also have "\<dots> = (\<not> k + 1 \<le> monthOf tz t)" unfolding monthOf_def firstDay_le_iff[symmetric] by auto
  finally show ?thesis by auto
qed

lemma monthOf_mono:
  assumes "changesWithinDay tz" "a \<le> b"
  shows "monthOf tz a \<le> monthOf tz b"
proof -
  have "monthStart tz (monthOf tz a) \<le> a" unfolding monthStart_le_iff[OF assms(1)] by simp
  then have "monthStart tz (monthOf tz a) \<le> b" using assms(2) by simp
  then show ?thesis unfolding monthStart_le_iff[OF assms(1)] .
qed

lemma monthStart_bounds:
  "t - 33 * msPerDay < monthStart tz (monthOf tz t)" "monthStart tz (monthOf tz t) < t + 2 * msPerDay"
  using local_month_bounds(1,2)[where t = t and tz = tz]
    ofLocal_bounds[where x = "firstDay (monthOf tz t)" and r = 0 and tz = tz]
  unfolding monthStart_def by linarith+

lemma monthEnd_bounds:
  "t - 2 * msPerDay < monthEnd tz (monthOf tz t)" "monthEnd tz (monthOf tz t) < t + 33 * msPerDay"
proof -
  have e: "(firstDay (monthOf tz t + 1) - 1) * msPerDay + (msPerDay - 1)
      = firstDay (monthOf tz t + 1) * msPerDay - 1" by (simp add: algebra_simps)
  note b = ofLocal_bounds[where x = "firstDay (monthOf tz t + 1) - 1" and r = "msPerDay - 1"
      and tz = tz, unfolded e]
  show "t - 2 * msPerDay < monthEnd tz (monthOf tz t)"
    unfolding monthEnd_def using b(1) local_month_bounds(3)[where t = t and tz = tz] by linarith
  show "monthEnd tz (monthOf tz t) < t + 33 * msPerDay"
    unfolding monthEnd_def using b(2) local_month_bounds(4)[where t = t and tz = tz] by linarith
qed

lemma startOfMonth_Some:
  assumes "changesWithinDay tz" "\<bar>t\<bar> \<le> maxTime - 40 * msPerDay"
  shows "startOfMonth tz (Some t) = Some (monthStart tz (monthOf tz t))"
proof -
  define k where "k = monthOf tz t"
  define r where "r = TimeWithinDay (LocalTime tz t)"
  define u where "u = ofLocal tz (firstDay k) r"
  have r: "0 \<le> r" "r < msPerDay" unfolding r_def by (rule TimeWithinDay_range)+
  have D: "0 < msPerDay" by (rule msPerDay_pos)
  note m = local_month_bounds(1,2)[where t = t and tz = tz, folded k_def]
  note ub = ofLocal_bounds[where x = "firstDay k" and r = r and tz = tz, folded u_def]
  have "setDate tz (Some t) 1 = TimeClip u"
    unfolding setDate_Some u_def r_def k_def by simp
  also have "\<dots> = Some u" using ub m r assms(2) D by (intro TimeClip_Some) linarith
  finally have s1: "setDate tz (Some t) 1 = Some u" .
  have du: "Day (LocalTime tz u) = firstDay k"
    unfolding u_def by (rule local_day_ofLocal[OF assms(1) r])
  have "setHours tz (Some u) 0 0 0 0 = TimeClip (ofLocal tz (firstDay k) 0)"
    unfolding setHours_Some du by (simp add: MakeTime_def)
  also have "\<dots> = TimeClip (monthStart tz k)" by (simp only: monthStart_def)
  also have "\<dots> = Some (monthStart tz k)"
    using monthStart_bounds[where t = t and tz = tz, folded k_def] assms(2) D
    by (intro TimeClip_Some) linarith
  finally show ?thesis unfolding startOfMonth_def s1 k_def .
qed

lemma endOfMonth_Some:
  assumes "changesWithinDay tz" "\<bar>t\<bar> \<le> maxTime - 40 * msPerDay"
  shows "endOfMonth tz (Some t) = Some (monthEnd tz (monthOf tz t))"
proof -
  define k where "k = monthOf tz t"
  define r where "r = TimeWithinDay (LocalTime tz t)"
  define x where "x = firstDay (k + 1) - 1"
  define u where "u = ofLocal tz x r"
  have r: "0 \<le> r" "r < msPerDay" unfolding r_def by (rule TimeWithinDay_range)+
  have D: "0 < msPerDay" by (rule msPerDay_pos)
  note m = local_month_bounds(3,4)[where t = t and tz = tz, folded k_def]
  have xe: "x * msPerDay = firstDay (k + 1) * msPerDay - msPerDay"
    unfolding x_def by (simp add: algebra_simps)
  note ub = ofLocal_bounds[where x = x and r = r and tz = tz, folded u_def, unfolded xe]
  have md: "MakeDay (YearFromTime (LocalTime tz t)) (MonthFromTime (LocalTime tz t) + 1) 0 = x"
    unfolding MakeDay_of_time x_def k_def monthOf_def by simp
  have "setFullYear tz (Some t) (YearFromTime (LocalTime tz t))
          (MonthFromTime (LocalTime tz t) + 1) 0 = TimeClip u"
    unfolding setFullYear_Some md u_def r_def ..
  also have "\<dots> = Some u" using ub m r assms(2) D by (intro TimeClip_Some) linarith
  finally have s1: "setFullYear tz (Some t) (YearFromTime (LocalTime tz t))
          (MonthFromTime (LocalTime tz t) + 1) 0 = Some u" .
  have du: "Day (LocalTime tz u) = x"
    unfolding u_def by (rule local_day_ofLocal[OF assms(1) r])
  have "setHours tz (Some u) 23 59 59 999 = TimeClip (monthEnd tz k)"
    unfolding setHours_Some du MakeTime_last monthEnd_def x_def ..
  also have "\<dots> = Some (monthEnd tz k)"
    using monthEnd_bounds[where t = t and tz = tz, folded k_def] assms(2) D
    by (intro TimeClip_Some) linarith
  finally show ?thesis
    unfolding endOfMonth_def getFullYear_def getMonth_def k_def by (simp add: s1)
qed

text \<open>
  From a time value of the first day of a month, \<^verbatim>\<open>addMonths(date, 1)\<close> gives a time
  value of the first day of the next month.
\<close>

lemma addMonths_firstDay:
  assumes "changesWithinDay tz" "Day (LocalTime tz a) = firstDay k"
    and "- (maxTime - 65 * msPerDay) \<le> firstDay k * msPerDay"
    and "firstDay k * msPerDay \<le> maxTime - 65 * msPerDay"
  shows "\<exists>a'. addMonths tz (Some a) 1 = Some a' \<and> Day (LocalTime tz a') = firstDay (k + 1)"
proof -
  define r where "r = TimeWithinDay (LocalTime tz a)"
  define e where "e = ofLocal tz (firstDay (k + 2) - 1) r"
  define a' where "a' = ofLocal tz (firstDay (k + 1)) r"
  have r: "0 \<le> r" "r < msPerDay" unfolding r_def by (rule TimeWithinDay_range)+
  have D: "0 < msPerDay" by (rule msPerDay_pos)
  have k: "monthOf tz a = k" using assms(2) by (rule monthOf_firstDay)
  have s1: "firstDay k + 28 \<le> firstDay (k + 1)" "firstDay (k + 1) \<le> firstDay k + 31"
    by (rule firstDay_step)+
  have "firstDay (k + 1) + 28 \<le> firstDay (k + 1 + 1)" "firstDay (k + 1 + 1) \<le> firstDay (k + 1) + 31"
    by (rule firstDay_step)+
  then have s2: "firstDay (k + 1) + 28 \<le> firstDay (k + 2)" "firstDay (k + 2) \<le> firstDay (k + 1) + 31"
    by (simp_all add: add.assoc)
  have "firstDay k * msPerDay \<le> firstDay (k + 1) * msPerDay" using s1(1) by (intro days_le) simp
  moreover have "firstDay (k + 1) * msPerDay \<le> (firstDay k + 31) * msPerDay"
    using s1(2) by (rule days_le)
  ultimately have m1: "firstDay k * msPerDay \<le> firstDay (k + 1) * msPerDay"
    "firstDay (k + 1) * msPerDay \<le> firstDay k * msPerDay + 31 * msPerDay"
    by (simp_all add: algebra_simps)
  have "firstDay k * msPerDay \<le> (firstDay (k + 2) - 1) * msPerDay" using s1(1) s2(1) by (intro days_le) simp
  moreover have "(firstDay (k + 2) - 1) * msPerDay \<le> (firstDay k + 62) * msPerDay"
    using s1(2) s2(2) by (intro days_le) simp
  ultimately have m2: "firstDay k * msPerDay \<le> (firstDay (k + 2) - 1) * msPerDay"
    "(firstDay (k + 2) - 1) * msPerDay \<le> firstDay k * msPerDay + 62 * msPerDay"
    by (simp_all add: algebra_simps)
  note eb = ofLocal_bounds[where x = "firstDay (k + 2) - 1" and r = r and tz = tz, folded e_def]
  note ab = ofLocal_bounds[where x = "firstDay (k + 1)" and r = r and tz = tz, folded a'_def]
  have e_ok: "\<not> maxTime < \<bar>e\<bar>" using eb m2 r assms(3,4) D by linarith
  have a_ok: "\<bar>a'\<bar> \<le> maxTime" using ab m1 r assms(3,4) D by linarith
  have de: "Day (LocalTime tz e) = firstDay (k + 2) - 1"
    unfolding e_def by (rule local_day_ofLocal[OF assms(1) r])
  have "monthIndex (firstDay (k + 1 + 1) - 1) = k + 1" by (rule monthIndex_last_day)
  then have me: "monthOf tz e = k + 1" unfolding monthOf_def de by (simp add: add.assoc)
  have dm: "Day (LocalTime tz a) - firstDay k + 1 = 1" using assms(2) by simp
  have big: "\<not> firstDay (k + 2) - 1 - firstDay (k + 1) + 1 \<le> 1" using s2(1) by simp
  have "addMonths tz (Some a) 1 = TimeClip (ofLocal tz (firstDay (k + 1) + 1 - 1) r)"
    unfolding addMonths_one k dm r_def[symmetric] e_def[symmetric] me de using e_ok big by simp
  also have "\<dots> = TimeClip a'" unfolding a'_def by simp
  also have "\<dots> = Some a'" using a_ok by (rule TimeClip_Some)
  finally have "addMonths tz (Some a) 1 = Some a'" .
  moreover have "Day (LocalTime tz a') = firstDay (k + 1)"
    unfolding a'_def by (rule local_day_ofLocal[OF assms(1) r])
  ultimately show ?thesis by blast
qed

section \<open>Properties of the aggregation loop\<close>

lemma toLocaleDateString_firstDay:
  assumes "Day (LocalTime tz a) = firstDay k"
  shows "toLocaleDateString tz (Some a) = monthLabel k"
  unfolding toLocaleDateString_def option.case Let_def YearFromTime_def MonthFromTime_def
    assms ym_of_firstDay monthLabel_def ..

lemma in_month_iff:
  assumes "changesWithinDay tz" "monthEndsCleanly tz k"
  shows "date_ge d (Some (monthStart tz k)) \<and> date_le d (Some (monthEnd tz k))
   \<longleftrightarrow> inMonth tz k d"
proof (cases d)
  case None
  then show ?thesis by (simp add: date_ge_def date_le_def inMonth_def)
next
  case (Some t)
  have a: "monthStart tz k \<le> t \<longleftrightarrow> k \<le> monthOf tz t" by (rule monthStart_le_iff[OF assms(1)])
  have b: "t \<le> monthEnd tz k \<longleftrightarrow> monthOf tz t \<le> k" by (rule monthEnd_ge_iff[OF assms])
  show ?thesis unfolding Some date_ge_def date_le_def inMonth_def using a b by auto
qed

lemma foldl_addToMonth_month:
  "month (foldl (addToMonth ms me) md es) = month md"
  by (induction es arbitrary: md) (simp_all add: addToMonth_def)

lemma foldl_addToMonth_totals:
  "totals (foldl (addToMonth ms me) md es) c =
   foldl numAdd (totals md c) (map amount
      (filter (\<lambda>e. (date_ge (date e) ms \<and> date_le (date e) me) \<and> category e = c) es))"
  by (induction es arbitrary: md) (simp_all add: addToMonth_def)

lemma foldl_addToMonth_entry:
  assumes "changesWithinDay tz" "monthEndsCleanly tz k"
  shows "foldl (addToMonth (Some (monthStart tz k)) (Some (monthEnd tz k)))
     (emptyMonthData (monthLabel k)) es = monthEntry tz es k"
proof (rule MonthlyExpenseData.equality)
  show "month (foldl (addToMonth (Some (monthStart tz k)) (Some (monthEnd tz k)))
     (emptyMonthData (monthLabel k)) es) = month (monthEntry tz es k)"
    by (simp add: foldl_addToMonth_month emptyMonthData_def monthEntry_def)
  show "totals (foldl (addToMonth (Some (monthStart tz k)) (Some (monthEnd tz k)))
     (emptyMonthData (monthLabel k)) es) = totals (monthEntry tz es k)"
  proof (rule ext)
    fix c
    have z: "totals (emptyMonthData (monthLabel k)) c = Finite 0"
      by (cases c) (simp_all add: emptyMonthData_def)
    show "totals (foldl (addToMonth (Some (monthStart tz k)) (Some (monthEnd tz k)))
       (emptyMonthData (monthLabel k)) es) c = totals (monthEntry tz es k) c"
      unfolding foldl_addToMonth_totals in_month_iff[OF assms] z
      by (simp add: monthEntry_def monthTotal_def)
  qed
qed simp

lemma firstDay_time_bounds:
  assumes "Day (LocalTime tz a) = firstDay k"
  shows "firstDay k * msPerDay - msPerDay < a" "a < firstDay k * msPerDay + 2 * msPerDay"
proof -
  have "firstDay k * msPerDay \<le> LocalTime tz a" "LocalTime tz a < (firstDay k + 1) * msPerDay"
    using Day_mult_le[of "LocalTime tz a"] Day_mult_gt[of "LocalTime tz a"] unfolding assms by simp_all
  then show "firstDay k * msPerDay - msPerDay < a" "a < firstDay k * msPerDay + 2 * msPerDay"
    using LocalTime_bounds[where t = a and tz = tz] by (simp_all add: algebra_simps)
qed

lemma monthsLoop_stop:
  "\<not> date_le c e \<Longrightarrow> monthsLoop tz es c e acc = acc"
  by (subst monthsLoop.simps) simp

lemma monthsLoop_body:
  assumes "changesWithinDay tz" "Day (LocalTime tz a) = firstDay k"
    and "- (maxTime - 65 * msPerDay) \<le> firstDay k * msPerDay"
    and "firstDay k * msPerDay \<le> maxTime - 65 * msPerDay"
    and "date_le (Some a) e"
  shows "\<exists>a'. Day (LocalTime tz a') = firstDay (k + 1) \<and>
         monthsLoop tz es (Some a) e acc =
         monthsLoop tz es (Some a') e
           (acc @ [foldl (addToMonth (Some (monthStart tz k)) (Some (monthEnd tz k)))
                     (emptyMonthData (monthLabel k)) es])"
proof -
  have D: "0 < msPerDay" by (rule msPerDay_pos)
  have k: "monthOf tz a = k" using assms(2) by (rule monthOf_firstDay)
  have r: "\<bar>a\<bar> \<le> maxTime - 40 * msPerDay"
    using firstDay_time_bounds[OF assms(2)] assms(3,4) D by linarith
  obtain a' where a': "addMonths tz (Some a) 1 = Some a'" "Day (LocalTime tz a') = firstDay (k + 1)"
    using addMonths_firstDay[OF assms(1,2,3,4)] by blast
  have "monthsLoop tz es (Some a) e acc =
         monthsLoop tz es (Some a') e
           (acc @ [foldl (addToMonth (Some (monthStart tz k)) (Some (monthEnd tz k)))
                     (emptyMonthData (monthLabel k)) es])"
    by (subst monthsLoop.simps)
       (simp only: assms(5) if_True Let_def toLocaleDateString_firstDay[OF assms(2)]
          startOfMonth_Some[OF assms(1) r] endOfMonth_Some[OF assms(1) r] k a'(1))
  then show ?thesis using a'(2) by blast
qed

lemma monthsLoop_step:
  assumes "changesWithinDay tz" "monthEndsCleanly tz k" "Day (LocalTime tz a) = firstDay k"
    and "- (maxTime - 65 * msPerDay) \<le> firstDay k * msPerDay"
    and "firstDay k * msPerDay \<le> maxTime - 65 * msPerDay"
    and "date_le (Some a) e"
  shows "\<exists>a'. Day (LocalTime tz a') = firstDay (k + 1) \<and>
         monthsLoop tz es (Some a) e acc =
         monthsLoop tz es (Some a') e (acc @ [monthEntry tz es k])"
  using monthsLoop_body[OF assms(1,3,4,5,6)] unfolding foldl_addToMonth_entry[OF assms(1,2)] .

lemma monthsLoop_range:
  assumes "changesWithinDay tz" "\<forall>j. k \<le> j \<and> j \<le> kE \<longrightarrow> monthEndsCleanly tz j"
    and "monthEndsCleanly tz kE"
    and "Day (LocalTime tz a) = firstDay k"
    and "n = nat (kE + 1 - k)" "k \<le> kE + 1"
    and "- (maxTime - 65 * msPerDay) \<le> firstDay k * msPerDay"
    and "firstDay (kE + 1) * msPerDay \<le> maxTime - 65 * msPerDay"
  shows "monthsLoop tz es (Some a) (Some (monthEnd tz kE)) acc =
         acc @ map (monthEntry tz es) [k..kE]"
  using assms(2,4-8)
proof (induction n arbitrary: k a acc)
  case 0
  then have k: "k = kE + 1" by simp
  have "monthOf tz a = kE + 1" using "0.prems"(2) unfolding k by (rule monthOf_firstDay)
  then have "\<not> a \<le> monthEnd tz kE" unfolding monthEnd_ge_iff[OF assms(1,3)] by simp
  then have "\<not> date_le (Some a) (Some (monthEnd tz kE))" by (simp add: date_le_def)
  then show ?case unfolding k by (simp add: monthsLoop_stop)
next
  case (Suc n)
  then have k: "k \<le> kE" by simp
  have mk: "monthOf tz a = k" using Suc.prems(2) by (rule monthOf_firstDay)
  have "a \<le> monthEnd tz kE" unfolding monthEnd_ge_iff[OF assms(1,3)] mk by (rule k)
  then have le: "date_le (Some a) (Some (monthEnd tz kE))" by (simp add: date_le_def)
  have cl: "monthEndsCleanly tz k" using Suc.prems(1) k by simp
  have "firstDay k \<le> firstDay (kE + 1)" using k by (intro firstDay_mono) simp
  then have "firstDay k * msPerDay \<le> firstDay (kE + 1) * msPerDay" by (rule days_le)
  then have up: "firstDay k * msPerDay \<le> maxTime - 65 * msPerDay" using Suc.prems(6) by linarith
  obtain a' where a': "Day (LocalTime tz a') = firstDay (k + 1)"
    "monthsLoop tz es (Some a) (Some (monthEnd tz kE)) acc =
     monthsLoop tz es (Some a') (Some (monthEnd tz kE)) (acc @ [monthEntry tz es k])"
    using monthsLoop_step[OF assms(1) cl Suc.prems(2,5) up le] by blast
  have "firstDay k \<le> firstDay (k + 1)" by (intro firstDay_mono) simp
  then have lo: "firstDay k * msPerDay \<le> firstDay (k + 1) * msPerDay" by (rule days_le)
  have "monthsLoop tz es (Some a') (Some (monthEnd tz kE))
          (acc @ [monthEntry tz es k]) = (acc @ [monthEntry tz es k]) @ map (monthEntry tz es) [k + 1..kE]"
  proof (rule Suc.IH)
    show "\<forall>j. k + 1 \<le> j \<and> j \<le> kE \<longrightarrow> monthEndsCleanly tz j" using Suc.prems(1) by simp
    show "Day (LocalTime tz a') = firstDay (k + 1)" by (rule a'(1))
    show "n = nat (kE + 1 - (k + 1))" using Suc.prems(3) by simp
    show "k + 1 \<le> kE + 1" using k by simp
    show "- (maxTime - 65 * msPerDay) \<le> firstDay (k + 1) * msPerDay" using Suc.prems(5) lo by linarith
    show "firstDay (kE + 1) * msPerDay \<le> maxTime - 65 * msPerDay" by (rule Suc.prems(6))
  qed
  moreover have "[k..kE] = k # [k + 1..kE]" using k by (rule upto_rec1)
  ultimately show ?case unfolding a'(2) by simp
qed

lemma Math_min_Some: "ts \<noteq> [] \<Longrightarrow> Math_min (map Some ts) = Some (Min (set ts))"
proof (induction ts rule: induct_list012)
  case 1
  then show ?case by simp
next
  case (2 x)
  show ?case by simp
next
  case (3 x y zs)
  then have "Math_min (map Some (y # zs)) = Some (Min (set (y # zs)))" by simp
  then show ?case by (simp add: min.commute min.left_commute)
qed

lemma Math_max_Some: "ts \<noteq> [] \<Longrightarrow> Math_max (map Some ts) = Some (Max (set ts))"
proof (induction ts rule: induct_list012)
  case 1
  then show ?case by simp
next
  case (2 x)
  show ?case by simp
next
  case (3 x y zs)
  then have "Math_max (map Some (y # zs)) = Some (Max (set (y # zs)))" by simp
  then show ?case by (simp add: max.commute max.left_commute)
qed

lemma getMonthly_valid:
  assumes reg: "changesWithinDay tz"
    and ne: "ts \<noteq> []" and dates: "map date es = map Some ts"
    and safe: "\<forall>t\<in>set ts. safeTime t"
    and clean: "\<forall>j. monthOf tz (Min (set ts)) \<le> j \<and> j \<le> monthOf tz (Max (set ts))
                 \<longrightarrow> monthEndsCleanly tz j"
  shows "getMonthlyExpensesByCategory tz es =
         map (monthEntry tz es) [monthOf tz (Min (set ts))..monthOf tz (Max (set ts))]"
proof -
  define lo where "lo = Min (set ts)"
  define hi where "hi = Max (set ts)"
  have D: "0 < msPerDay" by (rule msPerDay_pos)
  have "lo \<in> set ts" "hi \<in> set ts" unfolding lo_def hi_def using ne by simp_all
  then have s: "safeTime lo" "safeTime hi" using safe by blast+
  have lohi: "lo \<le> hi" unfolding lo_def hi_def using ne by simp
  have rlo: "\<bar>lo\<bar> \<le> maxTime - 40 * msPerDay" using s(1) D unfolding safeTime_def by linarith
  have rhi: "\<bar>hi\<bar> \<le> maxTime - 40 * msPerDay" using s(2) D unfolding safeTime_def by linarith
  have es_ne: "length es \<noteq> 0" using ne dates by (metis length_0_conv length_map)
  have mn: "newDate (Math_min (map getTime (map date es))) = Some lo"
    using s(1) D unfolding dates lo_def safeTime_def
    by (simp add: getTime_def[abs_def] Math_min_Some[OF ne] newDate_def TimeClip_def)
  have mx: "newDate (Math_max (map getTime (map date es))) = Some hi"
    using s(2) D unfolding dates hi_def safeTime_def
    by (simp add: getTime_def[abs_def] Math_max_Some[OF ne] newDate_def TimeClip_def)
  have k: "monthOf tz lo \<le> monthOf tz hi + 1" using monthOf_mono[OF reg lohi] by simp
  have kk: "monthOf tz lo \<le> monthOf tz hi" using monthOf_mono[OF reg lohi] .
  have cE: "monthEndsCleanly tz (monthOf tz hi)" using clean kk unfolding lo_def hi_def by simp
  have b1: "- (maxTime - 65 * msPerDay) \<le> firstDay (monthOf tz lo) * msPerDay"
    using local_month_bounds(1)[where t = lo and tz = tz] s(1) D unfolding safeTime_def by linarith
  have b2: "firstDay (monthOf tz hi + 1) * msPerDay \<le> maxTime - 65 * msPerDay"
    using local_month_bounds(4)[where t = hi and tz = tz] s(2) D unfolding safeTime_def by linarith
  have d0: "Day (LocalTime tz (monthStart tz (monthOf tz lo))) = firstDay (monthOf tz lo)"
    unfolding monthStart_def using D by (intro local_day_ofLocal[OF reg]) simp_all
  have "getMonthlyExpensesByCategory tz es =
      monthsLoop tz es (Some (monthStart tz (monthOf tz lo))) (Some (monthEnd tz (monthOf tz hi))) []"
    unfolding getMonthlyExpensesByCategory_def Let_def mn mx
      startOfMonth_Some[OF reg rlo] endOfMonth_Some[OF reg rhi] using es_ne by simp
  also have "\<dots> = [] @ map (monthEntry tz es) [monthOf tz lo..monthOf tz hi]"
    using clean unfolding lo_def[symmetric] hi_def[symmetric]
    by (intro monthsLoop_range[OF reg _ cE d0 refl k b1 b2])
  finally show ?thesis unfolding lo_def hi_def by simp
qed

lemma Math_min_None: "None \<in> set xs \<Longrightarrow> Math_min xs = None"
  by (induction xs rule: induct_list012) (auto split: option.splits)

lemma getMonthly_invalid:
  assumes "None \<in> set (map date es)"
  shows "getMonthlyExpensesByCategory tz es = []"
proof -
  have "Math_min (map getTime (map date es)) = None"
    using assms by (intro Math_min_None) (simp add: getTime_def[abs_def])
  then have "startOfMonth tz (newDate (Math_min (map getTime (map date es)))) = None"
    by (simp add: newDate_def startOfMonth_def setDate_def setHours_def)
  then show ?thesis
    unfolding getMonthlyExpensesByCategory_def Let_def
    by (simp add: date_le_def monthsLoop_stop)
qed

section \<open>Properties of the queries\<close>

subsection \<open>Sums of whole amounts\<close>

lemma isWhole_Finite:
  assumes "isWhole v"
  shows "v = Finite (of_int \<lfloor>valueOf v\<rfloor>)" "valueOf v = of_int \<lfloor>valueOf v\<rfloor>"
  using assms by (cases v; simp add: isWhole_def valueOf_def)+

lemma numAdd_whole:
  assumes "isWhole v" "\<bar>real_of_int a\<bar> + \<bar>valueOf v\<bar> \<le> 2 ^ 53"
  shows "numAdd (Finite (of_int a)) v = Finite (of_int (a + \<lfloor>valueOf v\<rfloor>))"
proof -
  define n where "n = \<lfloor>valueOf v\<rfloor>"
  have v: "v = Finite (of_int n)" "valueOf v = of_int n"
    using isWhole_Finite[OF assms(1)] unfolding n_def by simp_all
  have "real_of_int (\<bar>a\<bar> + \<bar>n\<bar>) \<le> real_of_int (2 ^ 53)" using assms(2) unfolding v(2) by simp
  then have "\<bar>a\<bar> + \<bar>n\<bar> \<le> 2 ^ 53" by (simp only: of_int_le_iff)
  then have "\<bar>a + n\<bar> \<le> 2 ^ 53" by linarith
  then have "roundToDouble (of_int (a + n)) = Finite (of_int (a + n))" by (rule roundToDouble_int)
  then show ?thesis unfolding n_def[symmetric] by (subst v(1)) simp
qed

lemma foldl_whole:
  assumes "\<forall>v\<in>set vs. isWhole v" "\<bar>real_of_int a\<bar> + (\<Sum>v\<leftarrow>vs. \<bar>valueOf v\<bar>) \<le> 2 ^ 53"
  shows "foldl numAdd (Finite (of_int a)) vs = Finite (of_int a + (\<Sum>v\<leftarrow>vs. valueOf v))"
  using assms
proof (induction vs arbitrary: a)
  case Nil
  then show ?case by simp
next
  case (Cons v vs)
  define n where "n = \<lfloor>valueOf v\<rfloor>"
  have w: "isWhole v" using Cons.prems(1) by simp
  have vn: "valueOf v = of_int n" using isWhole_Finite(2)[OF w] unfolding n_def .
  have nn: "0 \<le> (\<Sum>v\<leftarrow>vs. \<bar>valueOf v\<bar>)" by (rule sum_list_nonneg) auto
  have b: "\<bar>real_of_int a\<bar> + \<bar>valueOf v\<bar> \<le> 2 ^ 53" using Cons.prems(2) nn by simp
  have s: "numAdd (Finite (of_int a)) v = Finite (of_int (a + n))"
    unfolding n_def by (rule numAdd_whole[OF w b])
  have "\<bar>real_of_int (a + n)\<bar> \<le> \<bar>real_of_int a\<bar> + \<bar>valueOf v\<bar>" unfolding vn by simp
  then have b': "\<bar>real_of_int (a + n)\<bar> + (\<Sum>v\<leftarrow>vs. \<bar>valueOf v\<bar>) \<le> 2 ^ 53"
    using Cons.prems(2) by simp
  have "foldl numAdd (Finite (of_int (a + n))) vs
      = Finite (of_int (a + n) + (\<Sum>v\<leftarrow>vs. valueOf v))"
    using Cons.prems(1) b' by (intro Cons.IH) simp_all
  then show ?case by (simp add: s vn)
qed

lemma sum_list_filter_le:
  fixes f :: "'a \<Rightarrow> real"
  assumes "\<forall>x\<in>set xs. 0 \<le> f x"
  shows "(\<Sum>x\<leftarrow>filter P xs. f x) \<le> (\<Sum>x\<leftarrow>xs. f x)"
  using assms by (induction xs) auto

lemma monthTotal_whole:
  assumes "\<forall>e\<in>set es. isWhole (amount e)" "(\<Sum>e\<leftarrow>es. \<bar>valueOf (amount e)\<bar>) \<le> 2 ^ 53"
  shows "monthTotal tz es k c =
     Finite (\<Sum>e\<leftarrow>filter (\<lambda>e. inMonth tz k (date e) \<and> category e = c) es. valueOf (amount e))"
proof -
  define xs where "xs = filter (\<lambda>e. inMonth tz k (date e) \<and> category e = c) es"
  have "(\<Sum>e\<leftarrow>xs. \<bar>valueOf (amount e)\<bar>) \<le> (\<Sum>e\<leftarrow>es. \<bar>valueOf (amount e)\<bar>)"
    unfolding xs_def by (rule sum_list_filter_le) simp
  then have b: "\<bar>real_of_int 0\<bar> + (\<Sum>v\<leftarrow>map amount xs. \<bar>valueOf v\<bar>) \<le> 2 ^ 53"
    using assms(2) by (simp add: comp_def)
  have w: "\<forall>v\<in>set (map amount xs). isWhole v" using assms(1) unfolding xs_def by simp
  have "foldl numAdd (Finite (of_int 0)) (map amount xs)
      = Finite (of_int 0 + (\<Sum>v\<leftarrow>map amount xs. valueOf v))"
    by (rule foldl_whole[OF w b])
  then show ?thesis unfolding monthTotal_def xs_def[symmetric] by (simp add: comp_def)
qed

lemma sum_by_category:
  fixes f :: "Expense \<Rightarrow> real"
  shows "(\<Sum>e\<leftarrow>filter (\<lambda>e. P e \<and> category e = Rental) es. f e)
       + (\<Sum>e\<leftarrow>filter (\<lambda>e. P e \<and> category e = Groceries) es. f e)
       + (\<Sum>e\<leftarrow>filter (\<lambda>e. P e \<and> category e = Entertainment) es. f e)
       + (\<Sum>e\<leftarrow>filter (\<lambda>e. P e \<and> category e = Travel) es. f e)
       + (\<Sum>e\<leftarrow>filter (\<lambda>e. P e \<and> category e = Others) es. f e)
       = (\<Sum>e\<leftarrow>filter P es. f e)"
proof (induction es)
  case Nil
  show ?case by simp
next
  case (Cons e es)
  then show ?case by (cases "category e") simp_all
qed

lemma categorySum_monthEntry:
  assumes "\<forall>e\<in>set es. isWhole (amount e)" "(\<Sum>e\<leftarrow>es. \<bar>valueOf (amount e)\<bar>) \<le> 2 ^ 53"
  shows "categorySum (monthEntry tz es k) =
   (\<Sum>e\<leftarrow>filter (\<lambda>e. inMonth tz k (date e)) es. valueOf (amount e))"
  unfolding categorySum_def monthEntry_def MonthlyExpenseData.simps monthTotal_whole[OF assms]
  by (simp only: valueOf_def number.case sum_by_category)

lemma sum_upto_delta:
  fixes x :: real
  assumes "a \<le> k0" "k0 \<le> b"
  shows "(\<Sum>k\<leftarrow>[a..b]. if k0 = k then x else 0) = x"
proof -
  have "(\<Sum>k\<leftarrow>[a..b]. if k0 = k then x else 0) = (\<Sum>k\<in>set [a..b]. if k0 = k then x else 0)"
    by (rule sum_list_distinct_conv_sum_set) simp
  also have "\<dots> = (if k0 \<in> set [a..b] then x else 0)" by (rule sum.delta') simp
  finally show ?thesis using assms by simp
qed

lemma sum_months_amounts:
  fixes f :: "Expense \<Rightarrow> real"
  assumes "\<forall>e\<in>set es. \<exists>t. date e = Some t \<and> a \<le> monthOf tz t \<and> monthOf tz t \<le> b"
  shows "(\<Sum>k\<leftarrow>[a..b]. (\<Sum>e\<leftarrow>filter (\<lambda>e. inMonth tz k (date e)) es. f e))
         = (\<Sum>e\<leftarrow>es. f e)"
  using assms
proof (induction es)
  case Nil
  show ?case by simp
next
  case (Cons e es)
  then obtain t where t: "date e = Some t" "a \<le> monthOf tz t" "monthOf tz t \<le> b" by auto
  have ih: "(\<Sum>k\<leftarrow>[a..b]. (\<Sum>e\<leftarrow>filter (\<lambda>e. inMonth tz k (date e)) es. f e))
         = (\<Sum>e\<leftarrow>es. f e)" using Cons by simp
  have "(\<Sum>k\<leftarrow>[a..b]. (\<Sum>e\<leftarrow>filter (\<lambda>e. inMonth tz k (date e)) (e # es). f e))
      = (\<Sum>k\<leftarrow>[a..b]. (if monthOf tz t = k then f e else 0)
            + (\<Sum>e\<leftarrow>filter (\<lambda>e. inMonth tz k (date e)) es. f e))"
    by (rule arg_cong[where f = sum_list], rule map_cong) (simp_all add: inMonth_def t(1))
  also have "\<dots> = (\<Sum>k\<leftarrow>[a..b]. if monthOf tz t = k then f e else 0)
            + (\<Sum>k\<leftarrow>[a..b]. (\<Sum>e\<leftarrow>filter (\<lambda>e. inMonth tz k (date e)) es. f e))"
    by (rule sum_list_addf)
  also have "\<dots> = f e + (\<Sum>e\<leftarrow>es. f e)"
    unfolding ih sum_upto_delta[OF t(2,3)] ..
  finally show ?case by simp
qed

text \<open>Every valid date of the collection is in a month of the range of the result.\<close>

lemma months_cover:
  assumes reg: "changesWithinDay tz" and ne: "ts \<noteq> []" and dates: "map date es = map Some ts"
    and e: "e \<in> set es"
  shows "\<exists>t. date e = Some t \<and> monthOf tz (Min (set ts)) \<le> monthOf tz t
      \<and> monthOf tz t \<le> monthOf tz (Max (set ts))"
proof -
  have fin: "finite (set ts)" "set ts \<noteq> {}" using ne by simp_all
  have "date e \<in> set (map date es)" using e by simp
  then have "date e \<in> Some ` set ts" unfolding dates by simp
  then obtain t where t: "date e = Some t" "t \<in> set ts" by auto
  have "Min (set ts) \<le> t" "t \<le> Max (set ts)" using t(2) fin by simp_all
  then have "monthOf tz (Min (set ts)) \<le> monthOf tz t" "monthOf tz t \<le> monthOf tz (Max (set ts))"
    by (simp_all add: monthOf_mono[OF reg])
  then show ?thesis using t(1) by blast
qed

lemma getMonthly_conservation:
  assumes reg: "changesWithinDay tz"
    and ne: "ts \<noteq> []" and dates: "map date es = map Some ts"
    and safe: "\<forall>t\<in>set ts. safeTime t"
    and clean: "\<forall>j. monthOf tz (Min (set ts)) \<le> j \<and> j \<le> monthOf tz (Max (set ts))
                 \<longrightarrow> monthEndsCleanly tz j"
    and whole: "\<forall>e\<in>set es. isWhole (amount e)" "(\<Sum>e\<leftarrow>es. \<bar>valueOf (amount e)\<bar>) \<le> 2 ^ 53"
  shows "sum_list (map categorySum (getMonthlyExpensesByCategory tz es))
         = (\<Sum>e\<leftarrow>es. valueOf (amount e))"
proof -
  have "\<forall>e\<in>set es. \<exists>t. date e = Some t \<and> monthOf tz (Min (set ts)) \<le> monthOf tz t
      \<and> monthOf tz t \<le> monthOf tz (Max (set ts))"
    using months_cover[OF reg ne dates] by blast
  then have "(\<Sum>k\<leftarrow>[monthOf tz (Min (set ts))..monthOf tz (Max (set ts))].
        (\<Sum>e\<leftarrow>filter (\<lambda>e. inMonth tz k (date e)) es. valueOf (amount e)))
      = (\<Sum>e\<leftarrow>es. valueOf (amount e))"
    by (rule sum_months_amounts)
  then show ?thesis
    unfolding getMonthly_valid[OF reg ne dates safe clean] map_map comp_def
      categorySum_monthEntry[OF whole] .
qed

subsection \<open>The date filters\<close>

lemma filter_keeps:
  "(if 0 < length paymentModes
    then filter (\<lambda>expense. paymentMode expense \<in> set paymentModes)
           (if 0 < length categories
            then filter (\<lambda>expense. category expense \<in> set categories) xs else xs)
    else (if 0 < length categories
          then filter (\<lambda>expense. category expense \<in> set categories) xs else xs))
   = filter (keeps categories paymentModes) xs"
  by (cases categories; cases paymentModes) (auto simp: keeps_def intro: filter_cong)

lemma safeTime_40: "safeTime t \<Longrightarrow> \<bar>t\<bar> \<le> maxTime - 40 * msPerDay"
  using msPerDay_pos unfolding safeTime_def by linarith

lemma safeTime_clip: "safeTime t \<Longrightarrow> TimeClip t = Some t"
  using msPerDay_pos unfolding safeTime_def by (intro TimeClip_Some) linarith

lemma getFiltered_thisMonth:
  assumes "changesWithinDay tz" "monthEndsCleanly tz (monthOf tz now)" "safeTime now"
  shows "getFilteredExpenses tz now es ThisMonth categories paymentModes =
         filter (\<lambda>e. inMonth tz (monthOf tz now) (date e) \<and> keeps categories paymentModes e) es"
proof -
  have "getFilteredExpenses tz now es ThisMonth categories paymentModes =
      filter (keeps categories paymentModes)
        (filter (\<lambda>e. date_ge (date e) (Some (monthStart tz (monthOf tz now)))
                    \<and> date_le (date e) (Some (monthEnd tz (monthOf tz now)))) es)"
    unfolding getFilteredExpenses_def Let_def safeTime_clip[OF assms(3)]
      startOfMonth_Some[OF assms(1) safeTime_40[OF assms(3)]]
      endOfMonth_Some[OF assms(1) safeTime_40[OF assms(3)]]
      filter_keeps by simp
  then show ?thesis unfolding in_month_iff[OF assms(1,2)] by (simp add: conj_commute)
qed

lemma day_before_month:
  assumes "Day (LocalTime tz t) = firstDay k - 1"
  shows "\<not> inMonth tz k (Some t)"
proof -
  have "monthIndex (firstDay (k - 1 + 1) - 1) = k - 1" by (rule monthIndex_last_day)
  then have "monthOf tz t = k - 1" unfolding monthOf_def assms by simp
  then show ?thesis by (simp add: inMonth_def)
qed

lemma last_day_of_month:
  assumes "Day (LocalTime tz t) = firstDay (k + 1) - 1"
  shows "inMonth tz k (Some t)"
  unfolding inMonth_def option.case monthOf_def assms by (rule monthIndex_last_day)









section \<open>Properties of the store\<close>






section \<open>Properties of loading\<close>

lemma mapE_all_Inr:
  "(\<And>x. x \<in> set xs \<Longrightarrow> f x = Inr (g x)) \<Longrightarrow> mapE f xs = Inr (map g xs)"
  by (induction xs) simp_all

lemma mapE_Inl:
  "x \<in> set xs \<Longrightarrow> f x = Inl err \<Longrightarrow> \<exists>err'. mapE f xs = Inl err'"
  by (induction xs) (auto split: sum.splits)

lemma setProp_absent:
  "k \<notin> fst ` set ps \<Longrightarrow> setProp ps k v = ps @ [(k, v)]"
  by (induction ps) auto

lemma loadExpenses_Inr:
  "s \<noteq> [] \<Longrightarrow> parseExpenses eng s = Inr xs \<Longrightarrow>
   loadExpenses eng (Some s) initialStore = \<lparr> expenses = xs, console = [] \<rparr>"
  by (simp add: loadExpenses_def initialStore_def)

lemma loadExpenses_Inl:
  "s \<noteq> [] \<Longrightarrow> parseExpenses eng s = Inl err \<Longrightarrow>
   loadExpenses eng (Some s) initialStore =
     \<lparr> expenses = [], console = [''Failed to parse expenses from localStorage:''] \<rparr>"
  by (simp add: loadExpenses_def initialStore_def)


lemma reviveExpense_missing_date:
  assumes "map_of fs ''date'' = None"
  shows "reviveExpense eng (JObj fs) =
         Inr (VObj (map (map_prod id ofJSON) fs @ [(''date'', VDate None)]))"
proof -
  have "''date'' \<notin> fst ` set fs" using assms by (simp add: map_of_eq_None_iff)
  then have "''date'' \<notin> fst ` set (map (map_prod id ofJSON) fs)" by (simp add: image_image)
  then have "setProp (map (map_prod id ofJSON) fs) ''date'' (VDate None)
      = map (map_prod id ofJSON) fs @ [(''date'', VDate None)]"
    by (rule setProp_absent)
  then show ?thesis using assms
    by (simp add: reviveExpense_def getProp_def newDateFrom_def spread_def)
qed

lemma reviveExpense_string_date:
  assumes "map_of fs ''date'' = Some (JStr str)"
  shows "reviveExpense eng (JObj fs) =
         Inr (VObj (setProp (map (map_prod id ofJSON) fs) ''date'' (VDate (Date_parse eng str))))"
  using assms by (simp add: reviveExpense_def getProp_def newDateFrom_def spread_def)


section \<open>Properties of the queries on the heap\<close>

termination monthsLoopH
proof (relation "measure (\<lambda>(tz, h, expensesA, currentDate, endDate, months).
          case (currentDate, endDate) of (Some a, Some b) \<Rightarrow> nat (b - a + 1) | _ \<Rightarrow> 0)")
  show "wf (measure (\<lambda>(tz, h, expensesA, currentDate, endDate, months).
          case (currentDate, endDate) of (Some a, Some b) \<Rightarrow> nat (b - a + 1) | _ \<Rightarrow> 0))"
    by simp
next
  fix tz :: Zone and h :: heap and expensesA months :: addr and currentDate endDate :: Date
    and x xa xb xc xd and xe :: heap
  assume le: "date_le currentDate endDate"
  then obtain a b where ab: "currentDate = Some a" "endDate = Some b" "a \<le> b"
    by (auto simp: date_le_def split: option.splits)
  show "((tz, xe, expensesA, addMonths tz currentDate 1, endDate, months),
         (tz, h, expensesA, currentDate, endDate, months))
        \<in> measure (\<lambda>(tz, h, expensesA, currentDate, endDate, months).
          case (currentDate, endDate) of (Some a, Some b) \<Rightarrow> nat (b - a + 1) | _ \<Rightarrow> 0)"
  proof (cases "addMonths tz (Some a) 1")
    case None
    then show ?thesis using ab by simp
  next
    case (Some a')
    then have "a < a'" by (rule addMonths_increasing)
    then show ?thesis using ab Some by simp
  qed
qed

declare monthsLoopH.simps [simp del]

lemma monthsLoopH_eq:
  assumes "m < length h" "h ! m = MonthArray acc" "a < length h" "h ! a = ExpenseArray es"
  shows "monthsLoopH tz h a c e m = h[m := MonthArray (monthsLoop tz es c e acc)]"
  using assms
proof (induction tz es c e acc arbitrary: h rule: monthsLoop.induct)
  case (1 tz es c e acc)
  have am: "a \<noteq> m" using "1.prems" by auto
  show ?case
  proof (cases "date_le c e")
    case False
    have "h[m := MonthArray acc] = h" using "1.prems"(2) list_update_id[of h m] by simp
    then show ?thesis
      using False by (subst monthsLoopH.simps, subst monthsLoop.simps) simp
  next
    case True
    define x where "x = foldl (addToMonth (startOfMonth tz c) (endOfMonth tz c))
        (emptyMonthData (toLocaleDateString tz c)) es"
    define h' where "h' = h[m := MonthArray (acc @ [x])]"
    have ea: "expensesAt h a = es" using "1.prems" by (simp add: expensesAt_def)
    have pu: "push h m x = h'" using "1.prems" by (simp add: push_def monthsAt_def h'_def)
    have ih: "monthsLoopH tz h' a (addMonths tz c 1) e m =
        h'[m := MonthArray (monthsLoop tz es (addMonths tz c 1) e (acc @ [x]))]"
      using "1.IH"[OF True refl refl refl refl x_def, of h'] "1.prems" am
      by (simp add: h'_def)
    have l: "monthsLoopH tz h a c e m = monthsLoopH tz h' a (addMonths tz c 1) e m"
      by (subst monthsLoopH.simps) (simp add: True Let_def ea x_def[symmetric] pu)
    have r: "monthsLoop tz es c e acc = monthsLoop tz es (addMonths tz c 1) e (acc @ [x])"
      by (subst monthsLoop.simps) (simp add: True Let_def x_def[symmetric])
    show ?thesis unfolding l r ih by (simp add: h'_def)
  qed
qed

lemma endsWith_alloc: "endsWith h c (alloc h c)"
proof -
  have "alloc h c = (length h + length ([]::cell list), h @ [] @ [c])"
    by (simp add: alloc_def)
  then show ?thesis unfolding endsWith_def by blast
qed

lemma endsWith_filterInto:
  assumes "endsWith h (ExpenseArray xs) s"
  shows "endsWith h (ExpenseArray (filter p xs)) (filterInto p s)"
proof -
  obtain cells where s: "s = (length h + length cells, h @ cells @ [ExpenseArray xs])"
    using assms unfolding endsWith_def by blast
  have "expensesAt (h @ cells @ [ExpenseArray xs]) (length h + length cells) = xs"
    using expensesAt_def nth_append_length[of "h @ cells" "ExpenseArray xs"] by simp
  then have "filterInto p s = (length h + length (cells @ [ExpenseArray xs]),
      h @ (cells @ [ExpenseArray xs]) @ [ExpenseArray (filter p xs)])"
    unfolding s filterInto_def by (simp add: alloc_def)
  then show ?thesis unfolding endsWith_def by blast
qed

lemma getFilteredExpensesH_endsWith:
  assumes "a < length h" "h ! a = ExpenseArray es"
  shows "endsWith h (ExpenseArray (getFilteredExpenses tz now es f cs ps))
           (getFilteredExpensesH tz now h a f cs ps)"
proof -
  have ea: "expensesAt h a = es" using assms by (simp add: expensesAt_def)
  define s0 where "s0 = alloc h (ExpenseArray es)"
  have i0: "endsWith h (ExpenseArray es) s0" unfolding s0_def by (rule endsWith_alloc)
  define p1 :: "Expense \<Rightarrow> bool" where "p1 = (\<lambda>expense. date_ge (date expense) (startOfMonth tz (TimeClip now))
                                         \<and> date_le (date expense) (endOfMonth tz (TimeClip now)))"
  define p2 :: "Expense \<Rightarrow> bool" where "p2 = (\<lambda>expense. date_ge (date expense) (subDays tz (startOfDay tz (TimeClip now)) 30))"
  define p3 :: "Expense \<Rightarrow> bool" where "p3 = (\<lambda>expense. date_ge (date expense) (subDays tz (startOfDay tz (TimeClip now)) 90))"
  define d where "d = (if f = ThisMonth then filter p1 es else if f = Last30Days then filter p2 es
      else if f = Last90Days then filter p3 es else es)"
  define s1 where "s1 = (if f = ThisMonth then filterInto p1 s0 else if f = Last30Days then filterInto p2 s0
      else if f = Last90Days then filterInto p3 s0 else s0)"
  have i1: "endsWith h (ExpenseArray d) s1"
    unfolding d_def s1_def using i0 by (simp add: endsWith_filterInto)
  define c where "c = (if 0 < length cs then filter (\<lambda>expense. category expense \<in> set cs) d else d)"
  define s2 where "s2 = (if 0 < length cs then filterInto (\<lambda>expense. category expense \<in> set cs) s1 else s1)"
  have i2: "endsWith h (ExpenseArray c) s2"
    unfolding c_def s2_def using i1 by (simp add: endsWith_filterInto)
  define p where "p = (if 0 < length ps then filter (\<lambda>expense. paymentMode expense \<in> set ps) c else c)"
  define s3 where "s3 = (if 0 < length ps then filterInto (\<lambda>expense. paymentMode expense \<in> set ps) s2 else s2)"
  have i3: "endsWith h (ExpenseArray p) s3"
    unfolding p_def s3_def using i2 by (simp add: endsWith_filterInto)
  have res: "getFilteredExpenses tz now es f cs ps = p"
    unfolding getFilteredExpenses_def Let_def p_def c_def d_def p1_def p2_def p3_def by simp
  have "getFilteredExpensesH tz now h a f cs ps = s3"
    unfolding getFilteredExpensesH_def Let_def ea s3_def s2_def s1_def s0_def p1_def p2_def p3_def ..
  then show ?thesis unfolding res using i3 by simp
qed

lemma endsWith_facts:
  assumes "endsWith h c s"
  shows "take (length h) (snd s) = h" "length h \<le> fst s" "fst s < length (snd s)"
    "snd s ! fst s = c"
proof -
  obtain cells where s: "s = (length h + length cells, h @ cells @ [c])"
    using assms unfolding endsWith_def by blast
  show "take (length h) (snd s) = h" unfolding s by simp
  show "length h \<le> fst s" unfolding s by simp
  show "fst s < length (snd s)" unfolding s by simp
  show "snd s ! fst s = c"
    unfolding s using nth_append_length[of "h @ cells" c] by simp
qed

lemma take_prefix_nth:
  "take n h' = h \<Longrightarrow> a < length h \<Longrightarrow> h' ! a = h ! a"
  by (metis length_take min_less_iff_conj nth_take)

lemma getMonthlyExpensesByCategoryH_endsWith:
  assumes "a < length h" "h ! a = ExpenseArray es"
  shows "endsWith h (MonthArray (getMonthlyExpensesByCategory tz es))
           (getMonthlyExpensesByCategoryH tz h a)"
proof (cases "es = []")
  case True
  have ea: "expensesAt h a = []" using assms True by (simp add: expensesAt_def)
  show ?thesis
    unfolding getMonthlyExpensesByCategoryH_def getMonthlyExpensesByCategory_def ea True
    by (simp add: endsWith_alloc)
next
  case False
  have ea: "expensesAt h a = es" using assms by (simp add: expensesAt_def)
  define ds where "ds = map date es"
  define ns where "ns = map getTime ds"
  define start where "start = startOfMonth tz (newDate (Math_min ns))"
  define stop where "stop = endOfMonth tz (newDate (Math_max ns))"
  define h3 where "h3 = h @ [DateArray ds, NumberArray ns, NumberArray ns]"
  define h4 where "h4 = h3 @ [MonthArray []]"
  have l3: "length h3 = length h + 3" by (simp add: h3_def)
  have m: "length h3 < length h4" "h4 ! length h3 = MonthArray []" by (simp_all add: h4_def)
  have a4: "a < length h4" "h4 ! a = ExpenseArray es"
    using assms by (simp_all add: h4_def h3_def nth_append)
  have loop: "monthsLoopH tz h4 a start stop (length h3) =
      h4[length h3 := MonthArray (monthsLoop tz es start stop [])]"
    by (rule monthsLoopH_eq[OF m a4])
  have upd: "h4[length h3 := MonthArray (monthsLoop tz es start stop [])]
      = h @ [DateArray ds, NumberArray ns, NumberArray ns] @ [MonthArray (monthsLoop tz es start stop [])]"
    unfolding h4_def h3_def by (simp add: list_update_append)
  have d1: "datesAt (h @ [DateArray ds]) (length h) = ds" by (simp add: datesAt_def)
  have d2: "datesAt (h @ [DateArray ds, NumberArray ns]) (length h) = ds"
    by (simp add: datesAt_def nth_append)
  have n1: "numbersAt (h @ [DateArray ds, NumberArray ns]) (Suc (length h)) = ns"
    by (simp add: numbersAt_def nth_append)
  have n2: "numbersAt (h @ [DateArray ds, NumberArray ns, NumberArray ns]) (Suc (Suc (length h))) = ns"
    by (simp add: numbersAt_def nth_append)
  have "getMonthlyExpensesByCategoryH tz h a =
      (length h3, monthsLoopH tz h4 a start stop (length h3))"
    unfolding getMonthlyExpensesByCategoryH_def ea using False
    by (simp add: alloc_def Let_def ds_def[symmetric] d1 d2 ns_def[symmetric] n1 n2
        start_def[symmetric] stop_def[symmetric] h3_def h4_def)
  then have "getMonthlyExpensesByCategoryH tz h a =
      (length h3,
       h @ [DateArray ds, NumberArray ns, NumberArray ns] @ [MonthArray (monthsLoop tz es start stop [])])"
    by (simp only: loop upd)
  then have "getMonthlyExpensesByCategoryH tz h a =
      (length h + length [DateArray ds, NumberArray ns, NumberArray ns],
       h @ [DateArray ds, NumberArray ns, NumberArray ns] @ [MonthArray (monthsLoop tz es start stop [])])"
    by (simp add: l3)
  moreover have "getMonthlyExpensesByCategory tz es = monthsLoop tz es start stop []"
    unfolding getMonthlyExpensesByCategory_def Let_def start_def stop_def ns_def ds_def
    using False by simp
  ultimately show ?thesis unfolding endsWith_def by metis
qed

section \<open>The examples\<close>

lemma utc_changes: "initialOffset utc = 0" "changes utc = []"
  unfolding utc_def by (rule makeZone_inverse, simp add: msPerDay_def)+

lemma newYork_changes:
  "initialOffset newYork = - 18000000"
  "changes newYork = [(1678604400000, - 14400000), (1699164000000, - 18000000),
      (1710054000000, - 14400000), (1730613600000, - 18000000)]"
  unfolding newYork_def by (rule makeZone_inverse, simp add: msPerDay_def)+

lemma cairo_changes:
  "initialOffset cairo = 7200000"
  "changes cairo = [(1714082400000, 10800000), (1730408400000, 7200000)]"
  unfolding cairo_def by (rule makeZone_inverse, simp add: msPerDay_def)+

lemma utc_withinDay: "changesWithinDay utc"
  by (simp add: changesWithinDay_def utc_changes)

lemma newYork_withinDay: "changesWithinDay newYork"
  by (simp add: changesWithinDay_def newYork_changes Day_def msPerDay_def)

lemma cairo_withinDay: "changesWithinDay cairo"
  by (simp add: changesWithinDay_def cairo_changes Day_def msPerDay_def)

lemma firstDay_2024:
  "firstDay 647 = 19692" "firstDay 648 = 19723" "firstDay 649 = 19754" "firstDay 650 = 19783"
  "firstDay 651 = 19814" "firstDay 652 = 19844" "firstDay 653 = 19875" "firstDay 654 = 19905"
  "firstDay 655 = 19936" "firstDay 656 = 19967" "firstDay 657 = 19997" "firstDay 658 = 20028"
  by (simp_all add: firstDay_def MakeDay_def DayFromYear_def daysBeforeMonth_def
      leapDays_def InLeapYear_def)

lemma firstDay_275760:
  "firstDay 3285488 = 99999988" "firstDay 3285489 = 100000018"
  by (simp_all add: firstDay_def MakeDay_def DayFromYear_def daysBeforeMonth_def
      leapDays_def InLeapYear_def)

lemma monthOf_eval:
  assumes "firstDay k * msPerDay \<le> LocalTime tz t" "LocalTime tz t < firstDay (k + 1) * msPerDay"
  shows "monthOf tz t = k"
proof -
  have a: "firstDay k \<le> Day (LocalTime tz t)" using assms(1) by (simp only: le_Day_iff)
  have "\<not> firstDay (k + 1) * msPerDay \<le> LocalTime tz t" using assms(2) by simp
  then have "\<not> firstDay (k + 1) \<le> Day (LocalTime tz t)" unfolding le_Day_iff .
  then have b: "Day (LocalTime tz t) < firstDay (k + 1)" by simp
  show ?thesis unfolding monthOf_def by (rule monthIndex_unique[OF a b])
qed

lemma whole_doubles:
  "roundToDouble 100 = Finite 100" "roundToDouble 50 = Finite 50" "roundToDouble 150 = Finite 150"
  using roundToDouble_int[of 100] roundToDouble_int[of 50] roundToDouble_int[of 150] by simp_all

lemma endOfMonth_maxTime: "endOfMonth utc (Some 8640000000000000) = None"
proof -
  have l: "LocalTime utc t = t" for t by (simp add: LocalTime_def utc_changes)
  have m: "monthOf utc 8640000000000000 = 3285488"
    by (rule monthOf_eval) (simp_all add: l firstDay_275760 msPerDay_def)
  have md: "MakeDay (YearFromTime (LocalTime utc 8640000000000000))
      (MonthFromTime (LocalTime utc 8640000000000000) + 1) 0 = 100000017"
    unfolding MakeDay_of_time monthOf_def[symmetric] m by (simp add: firstDay_275760)
  have "setFullYear utc (Some 8640000000000000) (YearFromTime (LocalTime utc 8640000000000000))
      (MonthFromTime (LocalTime utc 8640000000000000) + 1) 0 = None"
    unfolding setFullYear_Some md
    by (simp add: TimeClip_def ofLocal_def UTC_def utc_changes maxTime_def msPerDay_def
        TimeWithinDay_def l)
  then show ?thesis
    by (simp add: endOfMonth_def getFullYear_def getMonth_def setHours_def)
qed

text \<open>
  Cairo, October 2024: the clocks show the last hour of 31 October twice. The month
  ends, for \<^verbatim>\<open>endOfMonth\<close>, with the first showing of 23:59:59.999, and a time value of
  the second showing of that hour is after it.
\<close>

lemma cairo_local: "LocalTime cairo t \<le> t + 10800000"
  by (simp add: LocalTime_def cairo_changes)

lemma cairo_october:
  "monthOf cairo 1728986400000 = 657" "monthOf cairo 1730410200000 = 657"
  "monthStart cairo 657 = 1727730000000" "monthEnd cairo 657 = 1730408399999"
  "monthLabel 657 = ''Oct 2024''"
proof -
  show "monthOf cairo 1728986400000 = 657"
    by (rule monthOf_eval) (simp_all add: LocalTime_def cairo_changes firstDay_2024 msPerDay_def)
  show "monthOf cairo 1730410200000 = 657"
    by (rule monthOf_eval) (simp_all add: LocalTime_def cairo_changes firstDay_2024 msPerDay_def)
  show "monthStart cairo 657 = 1727730000000"
    by (simp add: monthStart_def ofLocal_def UTC_def cairo_changes firstDay_2024 msPerDay_def)
  show "monthEnd cairo 657 = 1730408399999"
    by (simp add: monthEnd_def ofLocal_def UTC_def cairo_changes firstDay_2024 msPerDay_def)
  show "monthLabel 657 = ''Oct 2024''"
    by (simp add: monthLabel_def monthShort_def digitsOf.simps digitChar_def)
qed

lemma cairo_lost_record:
  fixes e :: Expense
  assumes "date e = Some 1730410200000"
  shows "getMonthlyExpensesByCategory cairo [e] = [emptyMonthData ''Oct 2024'']"
proof -
  have r: "\<bar>1730410200000 :: int\<bar> \<le> maxTime - 40 * msPerDay"
    by (simp add: maxTime_def msPerDay_def)
  have tc: "TimeClip 1730410200000 = Some 1730410200000"
    by (rule TimeClip_Some) (simp add: maxTime_def)
  have start: "getMonthlyExpensesByCategory cairo [e] =
      monthsLoop cairo [e] (Some (monthStart cairo 657)) (Some (monthEnd cairo 657)) []"
    unfolding getMonthlyExpensesByCategory_def Let_def
    by (simp add: assms getTime_def newDate_def tc startOfMonth_Some[OF cairo_withinDay r]
        endOfMonth_Some[OF cairo_withinDay r] cairo_october)
  have d0: "Day (LocalTime cairo (monthStart cairo 657)) = firstDay 657"
    unfolding monthStart_def using msPerDay_pos by (intro local_day_ofLocal[OF cairo_withinDay]) simp_all
  have le: "date_le (Some (monthStart cairo 657)) (Some (monthEnd cairo 657))"
    by (simp add: date_le_def cairo_october)
  obtain a' where a': "Day (LocalTime cairo a') = firstDay (657 + 1)"
    "monthsLoop cairo [e] (Some (monthStart cairo 657)) (Some (monthEnd cairo 657)) [] =
     monthsLoop cairo [e] (Some a') (Some (monthEnd cairo 657))
       ([] @ [foldl (addToMonth (Some (monthStart cairo 657)) (Some (monthEnd cairo 657)))
                (emptyMonthData (monthLabel 657)) [e]])"
    using monthsLoop_body[OF cairo_withinDay d0 _ _ le, of "[e]" "[]"]
    by (auto simp add: firstDay_2024 maxTime_def msPerDay_def)
  have "firstDay 658 * msPerDay \<le> LocalTime cairo a'"
    using Day_mult_le[of "LocalTime cairo a'"] unfolding a'(1) by simp
  then have "1730408400000 \<le> a'" using cairo_local[of a'] by (simp add: firstDay_2024 msPerDay_def)
  then have stop: "\<not> date_le (Some a') (Some (monthEnd cairo 657))"
    by (simp add: date_le_def cairo_october)
  have body: "foldl (addToMonth (Some (monthStart cairo 657)) (Some (monthEnd cairo 657)))
                (emptyMonthData (monthLabel 657)) [e] = emptyMonthData ''Oct 2024''"
    by (simp add: addToMonth_def assms date_le_def cairo_october)
  show ?thesis unfolding start a'(2) monthsLoop_stop[OF stop] body by simp
qed

text \<open>The sum of \<open>2 ^ 53\<close> and 1 is no double: it is rounded to \<open>2 ^ 53\<close>.\<close>

lemma bitLength_2_53: "bitLength 9007199254740993 = 54"
  by (simp add: bitLength.simps)

lemma rounded_doubles:
  "roundToDouble 9007199254740992 = Finite 9007199254740992"
  "roundToDouble 9007199254740993 = Finite 9007199254740992"
proof -
  show "roundToDouble 9007199254740992 = Finite 9007199254740992"
    using roundToDouble_int[of 9007199254740992] by simp
  show "roundToDouble 9007199254740993 = Finite 9007199254740992"
    by (simp add: roundToDouble_def floorLog2_def pow2_def roundHalfEven_def bitLength_2_53 Let_def)
qed

lemma utc_local: "LocalTime utc t = t"
  by (simp add: LocalTime_def utc_changes)

section \<open>Filtering\<close>

text \<open>
  C6: with no category selected, no payment mode selected and the date filter
  ``All time'', \<open>getFilteredExpenses\<close> returns the whole collection in its original
  order.
\<close>

theorem getFilteredExpenses_all:
  "getFilteredExpenses tz now es AllTime [] [] = es"
  by (simp add: getFilteredExpenses_def)

section \<open>Monthly aggregation\<close>

text \<open>
  C1, as far as it holds: \<open>getMonthlyExpensesByCategory\<close> returns the empty list
  for the empty collection. Take a non-empty collection whose dates are all valid and
  inside the safe range, in a zone whose changes of the clocks stay within a local
  day and do not end at the midnight that ends a month of the range. Then the result
  has exactly one entry for each month from the local month of the earliest date to
  the local month of the latest date, in ascending order of months; the entry of a
  month carries its label and, for every category, the total of the amounts of the
  records of that month and category, added up from zero in the order of the
  collection, which is zero when there is none. When the date of some record is
  invalid the result is the empty list.
\<close>

theorem getMonthlyExpensesByCategory_months:
  "getMonthlyExpensesByCategory tz [] = [] \<and>
   (ts \<noteq> [] \<and> map date es = map Some ts \<and> (\<forall>t\<in>set ts. safeTime t)
    \<and> changesWithinDay tz
    \<and> (\<forall>j\<in>set [monthOf tz (Min (set ts))..monthOf tz (Max (set ts))]. monthEndsCleanly tz j)
    \<longrightarrow>
      getMonthlyExpensesByCategory tz es =
        map (monthEntry tz es) [monthOf tz (Min (set ts))..monthOf tz (Max (set ts))]
      \<and> length (getMonthlyExpensesByCategory tz es) =
        nat (monthOf tz (Max (set ts)) - monthOf tz (Min (set ts)) + 1))
   \<and> (None \<in> set (map date es) \<longrightarrow> getMonthlyExpensesByCategory tz es = [])"
proof (intro conjI impI)
  show "getMonthlyExpensesByCategory tz [] = []"
    by (simp add: getMonthlyExpensesByCategory_def)
next
  assume "None \<in> set (map date es)"
  then show "getMonthlyExpensesByCategory tz es = []" by (rule getMonthly_invalid)
next
  assume h: "ts \<noteq> [] \<and> map date es = map Some ts \<and> (\<forall>t\<in>set ts. safeTime t)
    \<and> changesWithinDay tz
    \<and> (\<forall>j\<in>set [monthOf tz (Min (set ts))..monthOf tz (Max (set ts))]. monthEndsCleanly tz j)"
  then show "getMonthlyExpensesByCategory tz es =
        map (monthEntry tz es) [monthOf tz (Min (set ts))..monthOf tz (Max (set ts))]"
    by (intro getMonthly_valid) simp_all
  then show "length (getMonthlyExpensesByCategory tz es) =
        nat (monthOf tz (Max (set ts)) - monthOf tz (Min (set ts)) + 1)"
    by simp
qed

text \<open>
  The example of the specification, in New York: one record of 100 for Groceries on
  2024-01-15 and one of 50 for Travel on 2024-03-10, both at local midnight, give the
  three entries for January, February and March 2024. The clocks are set forward
  on 10 March, so March ends 743 hours after it starts.
\<close>

theorem getMonthlyExpensesByCategory_months_witness:
  "safeTime 1705294800000 \<and> safeTime 1710046800000 \<and> changesWithinDay newYork
   \<and> monthEndsCleanly newYork 648 \<and> monthEndsCleanly newYork 649
   \<and> monthEndsCleanly newYork 650
   \<and> monthOf newYork 1705294800000 = 648 \<and> monthOf newYork 1710046800000 = 650
   \<and> getMonthlyExpensesByCategory newYork
     [\<lparr> amount = Finite 100, category = Groceries, notes' = ''milk'', date = Some 1705294800000,
        paymentMode = Cash, expenseId = ''a'' \<rparr>,
      \<lparr> amount = Finite 50, category = Travel, notes' = ''bus'', date = Some 1710046800000,
        paymentMode = UPI, expenseId = ''b'' \<rparr>]
   = [\<lparr> month = ''Jan 2024'', totals = (\<lambda>c. Finite 0)(Groceries := Finite 100) \<rparr>,
      \<lparr> month = ''Feb 2024'', totals = (\<lambda>c. Finite 0) \<rparr>,
      \<lparr> month = ''Mar 2024'', totals = (\<lambda>c. Finite 0)(Travel := Finite 50) \<rparr>]"
proof -
  define e1 :: Expense where "e1 = \<lparr> amount = Finite 100, category = Groceries, notes' = ''milk'',
     date = Some 1705294800000, paymentMode = Cash, expenseId = ''a'' \<rparr>"
  define e2 :: Expense where "e2 = \<lparr> amount = Finite 50, category = Travel, notes' = ''bus'',
     date = Some 1710046800000, paymentMode = UPI, expenseId = ''b'' \<rparr>"
  have m1: "monthOf newYork 1705294800000 = 648"
    by (rule monthOf_eval) (simp_all add: LocalTime_def newYork_changes firstDay_2024 msPerDay_def)
  have m2: "monthOf newYork 1710046800000 = 650"
    by (rule monthOf_eval) (simp_all add: LocalTime_def newYork_changes firstDay_2024 msPerDay_def)
  have s: "safeTime 1705294800000" "safeTime 1710046800000"
    by (simp_all add: safeTime_def maxTime_def msPerDay_def)
  have u: "[648..650] = [648, 649, 650::int]" by (simp add: upto_rec1)
  have c: "\<forall>j\<in>set [648, 649, 650]. monthEndsCleanly newYork j"
    by (simp add: monthEndsCleanly_def newYork_changes firstDay_2024 msPerDay_def)
  have d: "map date [e1, e2] = map Some [1705294800000, 1710046800000]"
    by (simp add: e1_def e2_def)
  have "getMonthlyExpensesByCategory newYork [e1, e2] =
      map (monthEntry newYork [e1, e2])
        [monthOf newYork (Min (set [1705294800000, 1710046800000]))..
         monthOf newYork (Max (set [1705294800000, 1710046800000]))]"
    using getMonthlyExpensesByCategory_months[of newYork "[1705294800000, 1710046800000]" "[e1, e2]"]
      s d c newYork_withinDay by (simp add: m1 m2 u)
  also have "\<dots> = map (monthEntry newYork [e1, e2]) [648..650]" by (simp add: m1 m2)
  finally have r: "getMonthlyExpensesByCategory newYork [e1, e2] =
      [monthEntry newYork [e1, e2] 648, monthEntry newYork [e1, e2] 649,
       monthEntry newYork [e1, e2] 650]"
    unfolding u by simp
  have l: "monthLabel 648 = ''Jan 2024''" "monthLabel 649 = ''Feb 2024''"
    "monthLabel 650 = ''Mar 2024''"
    by (simp_all add: monthLabel_def monthShort_def digitsOf.simps digitChar_def)
  have t1: "monthTotal newYork [e1, e2] 648 = (\<lambda>c. Finite 0)(Groceries := Finite 100)"
    by (rule ext) (simp add: monthTotal_def inMonth_def e1_def e2_def m1 m2 whole_doubles)
  have t2: "monthTotal newYork [e1, e2] 649 = (\<lambda>c. Finite 0)"
    by (rule ext) (simp add: monthTotal_def inMonth_def e1_def e2_def m1 m2)
  have t3: "monthTotal newYork [e1, e2] 650 = (\<lambda>c. Finite 0)(Travel := Finite 50)"
    by (rule ext) (simp add: monthTotal_def inMonth_def e1_def e2_def m1 m2 whole_doubles)
  have "getMonthlyExpensesByCategory newYork [e1, e2] =
     [\<lparr> month = ''Jan 2024'', totals = (\<lambda>c. Finite 0)(Groceries := Finite 100) \<rparr>,
      \<lparr> month = ''Feb 2024'', totals = (\<lambda>c. Finite 0) \<rparr>,
      \<lparr> month = ''Mar 2024'', totals = (\<lambda>c. Finite 0)(Travel := Finite 50) \<rparr>]"
    unfolding r monthEntry_def l t1 t2 t3 ..
  then show ?thesis using s c m1 m2 newYork_withinDay unfolding e1_def e2_def by simp
qed

text \<open>
  With one record of January 2024 and one record whose date is invalid, the minimum
  of the time values is NaN and no entry is returned, not even the one of January.
  With one record dated at the last time value there is, 13 September 275760, the end
  of its month is no time value and no entry is returned either. In Cairo a record
  dated in the second showing of the last hour of 31 October 2024 is a record of
  October, and the entry of October does not have its amount: the month ends, for the
  aggregation, with the first showing of that hour.
\<close>

theorem getMonthlyExpensesByCategory_months_counterexample:
  "getMonthlyExpensesByCategory utc
     [\<lparr> amount = Finite 100, category = Groceries, notes' = ''milk'', date = Some 1705276800000,
        paymentMode = Cash, expenseId = ''a'' \<rparr>,
      \<lparr> amount = Finite 50, category = Travel, notes' = ''bus'', date = None,
        paymentMode = UPI, expenseId = ''b'' \<rparr>] = []
   \<and> getMonthlyExpensesByCategory utc
     [\<lparr> amount = Finite 100, category = Groceries, notes' = ''milk'', date = Some 8640000000000000,
        paymentMode = Cash, expenseId = ''a'' \<rparr>] = []
   \<and> monthOf cairo 1730410200000 = 657 \<and> monthLabel 657 = ''Oct 2024''
   \<and> getMonthlyExpensesByCategory cairo
     [\<lparr> amount = Finite 100, category = Groceries, notes' = ''milk'', date = Some 1730410200000,
        paymentMode = Cash, expenseId = ''a'' \<rparr>] = [emptyMonthData ''Oct 2024'']
   \<and> totals (emptyMonthData ''Oct 2024'') Groceries = Finite 0"
proof (intro conjI)
  show "getMonthlyExpensesByCategory utc
     [\<lparr> amount = Finite 100, category = Groceries, notes' = ''milk'', date = Some 1705276800000,
        paymentMode = Cash, expenseId = ''a'' \<rparr>,
      \<lparr> amount = Finite 50, category = Travel, notes' = ''bus'', date = None,
        paymentMode = UPI, expenseId = ''b'' \<rparr>] = []"
    by (rule getMonthly_invalid) simp
  show "getMonthlyExpensesByCategory utc
     [\<lparr> amount = Finite 100, category = Groceries, notes' = ''milk'', date = Some 8640000000000000,
        paymentMode = Cash, expenseId = ''a'' \<rparr>] = []"
    unfolding getMonthlyExpensesByCategory_def Let_def
    by (simp add: getTime_def newDate_def TimeClip_def maxTime_def endOfMonth_maxTime
        date_le_def monthsLoop_stop split: option.splits)
  show "monthOf cairo 1730410200000 = 657" by (rule cairo_october)
  show "monthLabel 657 = ''Oct 2024''" by (rule cairo_october)
  show "getMonthlyExpensesByCategory cairo
     [\<lparr> amount = Finite 100, category = Groceries, notes' = ''milk'', date = Some 1730410200000,
        paymentMode = Cash, expenseId = ''a'' \<rparr>] = [emptyMonthData ''Oct 2024'']"
    by (rule cairo_lost_record) simp
  show "totals (emptyMonthData ''Oct 2024'') Groceries = Finite 0"
    by (simp add: emptyMonthData_def)
qed

section \<open>Date filters\<close>

text \<open>
  C4, as far as it holds: for a clock reading inside the safe range, in a zone whose
  changes of the clocks stay within a local day and do not end at the midnight that
  ends the current month, the filter ``This month'' keeps exactly the records whose
  date is valid and lies in the local calendar month of today (and that pass the
  category and payment mode selections), in their original order. A record dated on
  the local day before the first day of the current month is never in the result, and
  a record of the collection dated at any time of the last local day of the current
  month is in the result when it passes the two selections.
\<close>

theorem getFilteredExpenses_this_month:
  "changesWithinDay tz \<and> monthEndsCleanly tz (monthOf tz now) \<and> safeTime now \<longrightarrow>
     getFilteredExpenses tz now es ThisMonth categories paymentModes =
       filter (\<lambda>e. inMonth tz (monthOf tz now) (date e) \<and> keeps categories paymentModes e) es
     \<and> (\<forall>e t. date e = Some t \<and> Day (LocalTime tz t) = firstDay (monthOf tz now) - 1
          \<longrightarrow> e \<notin> set (getFilteredExpenses tz now es ThisMonth categories paymentModes))
     \<and> (\<forall>e t. e \<in> set es \<and> keeps categories paymentModes e \<and> date e = Some t
            \<and> Day (LocalTime tz t) = firstDay (monthOf tz now + 1) - 1
          \<longrightarrow> e \<in> set (getFilteredExpenses tz now es ThisMonth categories paymentModes))"
proof (intro impI conjI allI)
  assume h: "changesWithinDay tz \<and> monthEndsCleanly tz (monthOf tz now) \<and> safeTime now"
  show "getFilteredExpenses tz now es ThisMonth categories paymentModes =
       filter (\<lambda>e. inMonth tz (monthOf tz now) (date e) \<and> keeps categories paymentModes e) es"
    using h by (intro getFiltered_thisMonth) simp_all
next
  fix e :: Expense and t :: int
  assume h: "changesWithinDay tz \<and> monthEndsCleanly tz (monthOf tz now) \<and> safeTime now"
    and d: "date e = Some t \<and> Day (LocalTime tz t) = firstDay (monthOf tz now) - 1"
  have g: "getFilteredExpenses tz now es ThisMonth categories paymentModes =
       filter (\<lambda>e. inMonth tz (monthOf tz now) (date e) \<and> keeps categories paymentModes e) es"
    using h by (intro getFiltered_thisMonth) simp_all
  have "\<not> inMonth tz (monthOf tz now) (date e)" using d day_before_month[of tz t] by simp
  then show "e \<notin> set (getFilteredExpenses tz now es ThisMonth categories paymentModes)"
    unfolding g by simp
next
  fix e :: Expense and t :: int
  assume h: "changesWithinDay tz \<and> monthEndsCleanly tz (monthOf tz now) \<and> safeTime now"
    and d: "e \<in> set es \<and> keeps categories paymentModes e \<and> date e = Some t
            \<and> Day (LocalTime tz t) = firstDay (monthOf tz now + 1) - 1"
  have g: "getFilteredExpenses tz now es ThisMonth categories paymentModes =
       filter (\<lambda>e. inMonth tz (monthOf tz now) (date e) \<and> keeps categories paymentModes e) es"
    using h by (intro getFiltered_thisMonth) simp_all
  have "inMonth tz (monthOf tz now) (date e)" using d last_day_of_month[of tz t] by simp
  then show "e \<in> set (getFilteredExpenses tz now es ThisMonth categories paymentModes)"
    unfolding g using d by simp
qed

text \<open>
  New York at noon of 15 March 2024, a month in which the clocks are set forward: of
  the records dated 29 February at 23:30, 1 March at 0:00, 31 March at 23:59:59.999
  and 1 April at 0:30, all in local time, the second and the third are kept.
\<close>

theorem getFilteredExpenses_this_month_witness:
  "changesWithinDay newYork \<and> monthEndsCleanly newYork (monthOf newYork 1710518400000)
   \<and> safeTime 1710518400000 \<and>
   getFilteredExpenses newYork 1710518400000
     [\<lparr> amount = Finite 20, category = Rental, notes' = '''', date = Some 1709267400000,
        paymentMode = Cash, expenseId = ''a'' \<rparr>,
      \<lparr> amount = Finite 30, category = Others, notes' = '''', date = Some 1709269200000,
        paymentMode = UPI, expenseId = ''b'' \<rparr>,
      \<lparr> amount = Finite 40, category = Travel, notes' = '''', date = Some 1711943999999,
        paymentMode = UPI, expenseId = ''c'' \<rparr>,
      \<lparr> amount = Finite 50, category = Travel, notes' = '''', date = Some 1711945800000,
        paymentMode = Cash, expenseId = ''d'' \<rparr>] ThisMonth [] []
   = [\<lparr> amount = Finite 30, category = Others, notes' = '''', date = Some 1709269200000,
        paymentMode = UPI, expenseId = ''b'' \<rparr>,
      \<lparr> amount = Finite 40, category = Travel, notes' = '''', date = Some 1711943999999,
        paymentMode = UPI, expenseId = ''c'' \<rparr>]"
proof -
  have s: "safeTime 1710518400000" by (simp add: safeTime_def maxTime_def msPerDay_def)
  have m0: "monthOf newYork 1710518400000 = 650"
    by (rule monthOf_eval) (simp_all add: LocalTime_def newYork_changes firstDay_2024 msPerDay_def)
  have m1: "monthOf newYork 1709267400000 = 649"
    by (rule monthOf_eval) (simp_all add: LocalTime_def newYork_changes firstDay_2024 msPerDay_def)
  have m2: "monthOf newYork 1709269200000 = 650"
    by (rule monthOf_eval) (simp_all add: LocalTime_def newYork_changes firstDay_2024 msPerDay_def)
  have m3: "monthOf newYork 1711943999999 = 650"
    by (rule monthOf_eval) (simp_all add: LocalTime_def newYork_changes firstDay_2024 msPerDay_def)
  have m4: "monthOf newYork 1711945800000 = 651"
    by (rule monthOf_eval) (simp_all add: LocalTime_def newYork_changes firstDay_2024 msPerDay_def)
  have c: "monthEndsCleanly newYork (monthOf newYork 1710518400000)"
    unfolding m0 by (simp add: monthEndsCleanly_def newYork_changes firstDay_2024 msPerDay_def)
  show ?thesis
    using s c newYork_withinDay
      getFilteredExpenses_this_month[of newYork 1710518400000 _ "[]" "[]"]
    by (simp add: inMonth_def keeps_def m0 m1 m2 m3 m4)
qed

text \<open>
  In Cairo the clocks show the last hour of 31 October 2024 twice. On 15 October a
  record dated in the second showing of that hour is a record of the current month
  and of its last day, and the filter drops it. At the last time value there is, the
  end of the current month is no time value and the filter drops every record, also
  the one dated at that time value.
\<close>

theorem getFilteredExpenses_this_month_counterexample:
  "monthOf cairo 1728986400000 = 657 \<and> monthOf cairo 1730410200000 = 657
   \<and> Day (LocalTime cairo 1730410200000) = firstDay (657 + 1) - 1
   \<and> getFilteredExpenses cairo 1728986400000
       [\<lparr> amount = Finite 30, category = Others, notes' = '''', date = Some 1730410200000,
          paymentMode = UPI, expenseId = ''b'' \<rparr>] ThisMonth [] [] = []
   \<and> getFilteredExpenses utc 8640000000000000
       [\<lparr> amount = Finite 30, category = Others, notes' = '''', date = Some 8640000000000000,
          paymentMode = UPI, expenseId = ''b'' \<rparr>] ThisMonth [] [] = []"
proof (intro conjI)
  have r: "\<bar>1728986400000 :: int\<bar> \<le> maxTime - 40 * msPerDay"
    by (simp add: maxTime_def msPerDay_def)
  have tc: "TimeClip 1728986400000 = Some 1728986400000"
    by (rule TimeClip_Some) (simp add: maxTime_def)
  show "monthOf cairo 1728986400000 = 657" "monthOf cairo 1730410200000 = 657"
    by (rule cairo_october)+
  show "Day (LocalTime cairo 1730410200000) = firstDay (657 + 1) - 1"
    by (simp add: LocalTime_def cairo_changes firstDay_2024 Day_def msPerDay_def)
  show "getFilteredExpenses cairo 1728986400000
       [\<lparr> amount = Finite 30, category = Others, notes' = '''', date = Some 1730410200000,
          paymentMode = UPI, expenseId = ''b'' \<rparr>] ThisMonth [] [] = []"
    unfolding getFilteredExpenses_def Let_def tc
      startOfMonth_Some[OF cairo_withinDay r] endOfMonth_Some[OF cairo_withinDay r]
    by (simp add: cairo_october date_le_def)
  show "getFilteredExpenses utc 8640000000000000
       [\<lparr> amount = Finite 30, category = Others, notes' = '''', date = Some 8640000000000000,
          paymentMode = UPI, expenseId = ''b'' \<rparr>] ThisMonth [] [] = []"
    unfolding getFilteredExpenses_def Let_def
    by (simp add: TimeClip_def maxTime_def endOfMonth_maxTime date_le_def)
qed



section \<open>Conservation of the totals\<close>

text \<open>
  C9, as far as it holds. Take a non-empty collection whose dates are all valid and
  inside the safe range, in a zone whose changes of the clocks stay within a local
  day and do not end at the midnight that ends a month of the range. Then the entries
  are those of the months from the month of the earliest date to the month of the
  latest one, the total of an entry for a category is what the additions of the
  amounts of the records of that month and category give, from zero and in the order
  of the collection, and every record is a record of exactly one of these months:
  its amount is added into exactly one entry, in the bucket of its category. The
  additions are additions of doubles. When the amounts are whole numbers whose
  absolute values add up to \<open>2 ^ 53\<close> at most, no addition rounds, and the sum of
  the five totals over all entries is the sum of the amounts of all records.
\<close>

theorem getMonthlyExpensesByCategory_conserves:
  "ts \<noteq> [] \<and> map date es = map Some ts \<and> (\<forall>t\<in>set ts. safeTime t)
   \<and> changesWithinDay tz
   \<and> (\<forall>j\<in>set [monthOf tz (Min (set ts))..monthOf tz (Max (set ts))]. monthEndsCleanly tz j)
   \<longrightarrow>
     map totals (getMonthlyExpensesByCategory tz es) =
       map (monthTotal tz es) [monthOf tz (Min (set ts))..monthOf tz (Max (set ts))]
     \<and> (\<forall>e\<in>set es. \<exists>!k. k \<in> set [monthOf tz (Min (set ts))..monthOf tz (Max (set ts))]
                         \<and> inMonth tz k (date e))
     \<and> ((\<forall>e\<in>set es. isWhole (amount e)) \<and> (\<Sum>e\<leftarrow>es. \<bar>valueOf (amount e)\<bar>) \<le> 2 ^ 53 \<longrightarrow>
          sum_list (map categorySum (getMonthlyExpensesByCategory tz es))
          = (\<Sum>e\<leftarrow>es. valueOf (amount e)))"
proof (intro impI conjI ballI)
  assume h: "ts \<noteq> [] \<and> map date es = map Some ts \<and> (\<forall>t\<in>set ts. safeTime t)
   \<and> changesWithinDay tz
   \<and> (\<forall>j\<in>set [monthOf tz (Min (set ts))..monthOf tz (Max (set ts))]. monthEndsCleanly tz j)"
  have v: "getMonthlyExpensesByCategory tz es =
        map (monthEntry tz es) [monthOf tz (Min (set ts))..monthOf tz (Max (set ts))]"
    using h by (intro getMonthly_valid) simp_all
  show "map totals (getMonthlyExpensesByCategory tz es) =
       map (monthTotal tz es) [monthOf tz (Min (set ts))..monthOf tz (Max (set ts))]"
    unfolding v by (simp add: monthEntry_def)
next
  fix e
  assume h: "ts \<noteq> [] \<and> map date es = map Some ts \<and> (\<forall>t\<in>set ts. safeTime t)
   \<and> changesWithinDay tz
   \<and> (\<forall>j\<in>set [monthOf tz (Min (set ts))..monthOf tz (Max (set ts))]. monthEndsCleanly tz j)"
    and e: "e \<in> set es"
  obtain t where t: "date e = Some t" "monthOf tz (Min (set ts)) \<le> monthOf tz t"
    "monthOf tz t \<le> monthOf tz (Max (set ts))"
    using months_cover[of tz ts es e] h e by blast
  show "\<exists>!k. k \<in> set [monthOf tz (Min (set ts))..monthOf tz (Max (set ts))]
             \<and> inMonth tz k (date e)"
  proof (rule ex1I[of _ "monthOf tz t"])
    show "monthOf tz t \<in> set [monthOf tz (Min (set ts))..monthOf tz (Max (set ts))]
          \<and> inMonth tz (monthOf tz t) (date e)"
      using t by (simp add: inMonth_def)
    show "k = monthOf tz t"
      if "k \<in> set [monthOf tz (Min (set ts))..monthOf tz (Max (set ts))] \<and> inMonth tz k (date e)"
      for k using that t(1) by (simp add: inMonth_def)
  qed
next
  assume h: "ts \<noteq> [] \<and> map date es = map Some ts \<and> (\<forall>t\<in>set ts. safeTime t)
   \<and> changesWithinDay tz
   \<and> (\<forall>j\<in>set [monthOf tz (Min (set ts))..monthOf tz (Max (set ts))]. monthEndsCleanly tz j)"
    and w: "(\<forall>e\<in>set es. isWhole (amount e)) \<and> (\<Sum>e\<leftarrow>es. \<bar>valueOf (amount e)\<bar>) \<le> 2 ^ 53"
  show "sum_list (map categorySum (getMonthlyExpensesByCategory tz es))
          = (\<Sum>e\<leftarrow>es. valueOf (amount e))"
    using h w by (intro getMonthly_conservation[where ts = ts]) simp_all
qed

text \<open>
  The example of the specification, in New York: the totals of the three entries
  add up to 150, the sum of the two amounts.
\<close>

theorem getMonthlyExpensesByCategory_conserves_witness:
  "safeTime 1705294800000 \<and> safeTime 1710046800000 \<and> changesWithinDay newYork
   \<and> monthEndsCleanly newYork 648 \<and> monthEndsCleanly newYork 649
   \<and> monthEndsCleanly newYork 650
   \<and> isWhole (Finite 100) \<and> isWhole (Finite 50) \<and>
   sum_list (map categorySum (getMonthlyExpensesByCategory newYork
     [\<lparr> amount = Finite 100, category = Groceries, notes' = ''milk'', date = Some 1705294800000,
        paymentMode = Cash, expenseId = ''a'' \<rparr>,
      \<lparr> amount = Finite 50, category = Travel, notes' = ''bus'', date = Some 1710046800000,
        paymentMode = UPI, expenseId = ''b'' \<rparr>])) = 150"
proof -
  define e1 :: Expense where "e1 = \<lparr> amount = Finite 100, category = Groceries, notes' = ''milk'',
     date = Some 1705294800000, paymentMode = Cash, expenseId = ''a'' \<rparr>"
  define e2 :: Expense where "e2 = \<lparr> amount = Finite 50, category = Travel, notes' = ''bus'',
     date = Some 1710046800000, paymentMode = UPI, expenseId = ''b'' \<rparr>"
  have m1: "monthOf newYork 1705294800000 = 648"
    by (rule monthOf_eval) (simp_all add: LocalTime_def newYork_changes firstDay_2024 msPerDay_def)
  have m2: "monthOf newYork 1710046800000 = 650"
    by (rule monthOf_eval) (simp_all add: LocalTime_def newYork_changes firstDay_2024 msPerDay_def)
  have s: "safeTime 1705294800000" "safeTime 1710046800000"
    by (simp_all add: safeTime_def maxTime_def msPerDay_def)
  have u: "[648..650] = [648, 649, 650::int]" by (simp add: upto_rec1)
  have c: "\<forall>j\<in>set [648, 649, 650]. monthEndsCleanly newYork j"
    by (simp add: monthEndsCleanly_def newYork_changes firstDay_2024 msPerDay_def)
  have w: "isWhole (Finite 100)" "isWhole (Finite 50)" by (simp_all add: isWhole_def)
  have d: "map date [e1, e2] = map Some [1705294800000, 1710046800000]"
    by (simp add: e1_def e2_def)
  have "sum_list (map categorySum (getMonthlyExpensesByCategory newYork [e1, e2]))
      = (\<Sum>e\<leftarrow>[e1, e2]. valueOf (amount e))"
    using getMonthlyExpensesByCategory_conserves[of "[1705294800000, 1710046800000]" "[e1, e2]" newYork]
      s d c w newYork_withinDay
    by (simp add: m1 m2 u e1_def e2_def valueOf_def)
  then show ?thesis using s c w newYork_withinDay unfolding e1_def e2_def by (simp add: valueOf_def)
qed

text \<open>
  Two records of one month and one category with the amounts \<open>2 ^ 53\<close> and 1: the
  total of the entry is \<open>2 ^ 53\<close>, as the addition rounds, and the sum of the
  amounts is \<open>2 ^ 53 + 1\<close>. One record whose date is invalid: there is no entry, so
  the totals add up to zero, not to its amount. One record in Cairo dated in the
  second showing of the last hour of 31 October 2024: the entry of October does not
  have its amount.
\<close>

theorem getMonthlyExpensesByCategory_conserves_counterexample:
  "sum_list (map categorySum (getMonthlyExpensesByCategory utc
     [\<lparr> amount = Finite 9007199254740992, category = Groceries, notes' = ''rent'',
        date = Some 1705276800000, paymentMode = Cash, expenseId = ''a'' \<rparr>,
      \<lparr> amount = Finite 1, category = Groceries, notes' = ''tea'',
        date = Some 1705276800000, paymentMode = Cash, expenseId = ''b'' \<rparr>]))
     = 9007199254740992
   \<and> valueOf (Finite 9007199254740992) + valueOf (Finite 1) = 9007199254740993
   \<and> sum_list (map categorySum (getMonthlyExpensesByCategory utc
     [\<lparr> amount = Finite 100, category = Groceries, notes' = ''milk'', date = None,
        paymentMode = Cash, expenseId = ''a'' \<rparr>])) = 0
   \<and> sum_list (map categorySum (getMonthlyExpensesByCategory cairo
     [\<lparr> amount = Finite 100, category = Groceries, notes' = ''milk'', date = Some 1730410200000,
        paymentMode = Cash, expenseId = ''a'' \<rparr>])) = 0
   \<and> monthOf cairo 1730410200000 = 657"
proof (intro conjI)
  define e1 :: Expense where "e1 = \<lparr> amount = Finite 9007199254740992, category = Groceries,
     notes' = ''rent'', date = Some 1705276800000, paymentMode = Cash, expenseId = ''a'' \<rparr>"
  define e2 :: Expense where "e2 = \<lparr> amount = Finite 1, category = Groceries,
     notes' = ''tea'', date = Some 1705276800000, paymentMode = Cash, expenseId = ''b'' \<rparr>"
  have m: "monthOf utc 1705276800000 = 648"
    by (rule monthOf_eval) (simp_all add: utc_local firstDay_2024 msPerDay_def)
  have s: "\<forall>t\<in>set [1705276800000, 1705276800000]. safeTime t"
    by (simp add: safeTime_def maxTime_def msPerDay_def)
  have c: "\<forall>j. monthOf utc (Min (set [1705276800000, 1705276800000])) \<le> j
      \<and> j \<le> monthOf utc (Max (set [1705276800000, 1705276800000])) \<longrightarrow> monthEndsCleanly utc j"
    by (simp add: monthEndsCleanly_def utc_changes)
  have d: "map date [e1, e2] = map Some [1705276800000, 1705276800000]"
    by (simp add: e1_def e2_def)
  have "getMonthlyExpensesByCategory utc [e1, e2] =
      map (monthEntry utc [e1, e2])
        [monthOf utc (Min (set [1705276800000, 1705276800000]))..
         monthOf utc (Max (set [1705276800000, 1705276800000]))]"
    by (rule getMonthly_valid[OF utc_withinDay _ d s c]) simp
  then have r: "getMonthlyExpensesByCategory utc [e1, e2] = [monthEntry utc [e1, e2] 648]"
    by (simp add: m)
  have t: "monthTotal utc [e1, e2] 648 c =
      (if c = Groceries then Finite 9007199254740992 else Finite 0)" for c
    by (simp add: monthTotal_def inMonth_def e1_def e2_def m rounded_doubles)
  have "sum_list (map categorySum (getMonthlyExpensesByCategory utc [e1, e2])) = 9007199254740992"
    unfolding r by (simp add: categorySum_def monthEntry_def t valueOf_def)
  then show "sum_list (map categorySum (getMonthlyExpensesByCategory utc
     [\<lparr> amount = Finite 9007199254740992, category = Groceries, notes' = ''rent'',
        date = Some 1705276800000, paymentMode = Cash, expenseId = ''a'' \<rparr>,
      \<lparr> amount = Finite 1, category = Groceries, notes' = ''tea'',
        date = Some 1705276800000, paymentMode = Cash, expenseId = ''b'' \<rparr>]))
     = 9007199254740992"
    unfolding e1_def e2_def .
  show "valueOf (Finite 9007199254740992) + valueOf (Finite 1) = 9007199254740993"
    by (simp add: valueOf_def)
  have "getMonthlyExpensesByCategory utc
     [\<lparr> amount = Finite 100, category = Groceries, notes' = ''milk'', date = None,
        paymentMode = Cash, expenseId = ''a'' \<rparr>] = []"
    by (rule getMonthly_invalid) simp
  then show "sum_list (map categorySum (getMonthlyExpensesByCategory utc
     [\<lparr> amount = Finite 100, category = Groceries, notes' = ''milk'', date = None,
        paymentMode = Cash, expenseId = ''a'' \<rparr>])) = 0"
    by simp
  have "getMonthlyExpensesByCategory cairo
     [\<lparr> amount = Finite 100, category = Groceries, notes' = ''milk'', date = Some 1730410200000,
        paymentMode = Cash, expenseId = ''a'' \<rparr>] = [emptyMonthData ''Oct 2024'']"
    by (rule cairo_lost_record) simp
  then show "sum_list (map categorySum (getMonthlyExpensesByCategory cairo
     [\<lparr> amount = Finite 100, category = Groceries, notes' = ''milk'', date = Some 1730410200000,
        paymentMode = Cash, expenseId = ''a'' \<rparr>])) = 0"
    by (simp add: categorySum_def emptyMonthData_def valueOf_def)
  show "monthOf cairo 1730410200000 = 657" by (rule cairo_october)
qed

section \<open>Adding expenses\<close>




section \<open>Loading and saving\<close>

text \<open>
  C5, as far as it holds: when the slot holds no value the store stays empty and
  nothing is logged, and the same holds for the empty string, which the guard treats
  as no value. When the slot holds a non-empty text whose deserialization fails for
  whatever reason, the store stays empty and one line is logged; the load effect
  itself never fails. A text that the
  parser rejects, a parsed value that is not an array and an array with an element
  whose revival throws are such failures.
\<close>

theorem loadExpenses_failure:
  "loadExpenses eng None initialStore = \<lparr> expenses = [], console = [] \<rparr>
   \<and> loadExpenses eng (Some []) initialStore = \<lparr> expenses = [], console = [] \<rparr>
   \<and> (s \<noteq> [] \<and> parseExpenses eng s = Inl err \<longrightarrow>
        expenses (loadExpenses eng (Some s) initialStore) = []
        \<and> console (loadExpenses eng (Some s) initialStore)
            = [''Failed to parse expenses from localStorage:''])
   \<and> (JSON_parse eng s = Inl err \<longrightarrow> parseExpenses eng s = Inl err)
   \<and> (JSON_parse eng s = Inr j \<and> (\<forall>elems. j \<noteq> JArr elems) \<longrightarrow>
        parseExpenses eng s = Inl TypeError)
   \<and> (JSON_parse eng s = Inr (JArr elems) \<and> e \<in> set elems \<and> reviveExpense eng e = Inl err \<longrightarrow>
        (\<exists>err'. parseExpenses eng s = Inl err'))
   \<and> reviveExpense eng JNull = Inl TypeError"
proof (intro conjI impI)
  show "loadExpenses eng None initialStore = \<lparr> expenses = [], console = [] \<rparr>"
    by (simp add: loadExpenses_def initialStore_def)
  show "loadExpenses eng (Some []) initialStore = \<lparr> expenses = [], console = [] \<rparr>"
    by (simp add: loadExpenses_def initialStore_def)
  show "reviveExpense eng JNull = Inl TypeError" by (simp add: reviveExpense_def)
next
  assume "s \<noteq> [] \<and> parseExpenses eng s = Inl err"
  then have l: "loadExpenses eng (Some s) initialStore =
     \<lparr> expenses = [], console = [''Failed to parse expenses from localStorage:''] \<rparr>"
    by (intro loadExpenses_Inl) simp_all
  show "expenses (loadExpenses eng (Some s) initialStore) = []" unfolding l by simp
  show "console (loadExpenses eng (Some s) initialStore)
            = [''Failed to parse expenses from localStorage:'']" unfolding l by simp
next
  assume "JSON_parse eng s = Inl err"
  then show "parseExpenses eng s = Inl err" by (simp add: parseExpenses_def)
next
  assume "JSON_parse eng s = Inr j \<and> (\<forall>elems. j \<noteq> JArr elems)"
  then show "parseExpenses eng s = Inl TypeError"
    by (cases j) (simp_all add: parseExpenses_def)
next
  assume "JSON_parse eng s = Inr (JArr elems) \<and> e \<in> set elems \<and> reviveExpense eng e = Inl err"
  then show "\<exists>err'. parseExpenses eng s = Inl err'"
    using mapE_Inl[of e elems "reviveExpense eng" err] by (simp add: parseExpenses_def)
qed

text \<open>A text that the parser rejects leaves the store empty and logs one line.\<close>

theorem loadExpenses_failure_witness:
  "''{not json'' \<noteq> []
   \<and> parseExpenses (exampleEngine (Inl SyntaxError) [] 0 []) ''{not json'' = Inl SyntaxError
   \<and> expenses (loadExpenses (exampleEngine (Inl SyntaxError) [] 0 []) (Some ''{not json'') initialStore)
       = []
   \<and> console (loadExpenses (exampleEngine (Inl SyntaxError) [] 0 []) (Some ''{not json'') initialStore)
       = [''Failed to parse expenses from localStorage:'']"
proof -
  have p: "parseExpenses (exampleEngine (Inl SyntaxError) [] 0 []) ''{not json'' = Inl SyntaxError"
    by (simp add: parseExpenses_def exampleEngine_def)
  show ?thesis
    using p loadExpenses_failure[of "exampleEngine (Inl SyntaxError) [] 0 []" "''{not json''" SyntaxError]
    by simp
qed

text \<open>
  The empty string is a value that no JSON parser accepts, but the guard
  \<^verbatim>\<open>if (savedExpenses)\<close> skips it: nothing is parsed and nothing is logged.
\<close>

theorem loadExpenses_failure_counterexample:
  "parseExpenses (exampleEngine (Inl SyntaxError) [] 0 []) [] = Inl SyntaxError
   \<and> console (loadExpenses (exampleEngine (Inl SyntaxError) [] 0 []) (Some []) initialStore) = []"
  by (simp add: parseExpenses_def exampleEngine_def loadExpenses_def initialStore_def)

text \<open>
  C10: whenever the body of the \<^verbatim>\<open>try\<close> block does not throw, its result becomes
  the collection and nothing is logged. For a parsed array it does not throw when no
  element is \<^verbatim>\<open>null\<close> and \<^verbatim>\<open>new Date\<close> does not throw on the \<^verbatim>\<open>date\<close> property of
  any element: then every element is kept with all its properties, whatever they
  are, and with the date that \<^verbatim>\<open>new Date\<close> makes of its \<^verbatim>\<open>date\<close> property.
  \<^verbatim>\<open>new Date\<close> does not throw when that property is missing or is not an array or
  object. An element without \<^verbatim>\<open>date\<close> property gets the invalid date, and so does an
  element whose date string \<^verbatim>\<open>Date.parse\<close> rejects.
\<close>

theorem loadExpenses_no_validation:
  "(s \<noteq> [] \<and> parseExpenses eng s = Inr xs \<longrightarrow>
      loadExpenses eng (Some s) initialStore = \<lparr> expenses = xs, console = [] \<rparr>)
   \<and> (JSON_parse eng s = Inr (JArr elems)
       \<and> (\<forall>e\<in>set elems. e \<noteq> JNull \<and> (\<exists>d. newDateFrom eng (getProp e ''date'') = Inr d)) \<longrightarrow>
      parseExpenses eng s =
        Inr (map (\<lambda>e. VObj (setProp (spread e) ''date''
                   (VDate (case newDateFrom eng (getProp e ''date'') of
                             Inr d \<Rightarrow> d | Inl err \<Rightarrow> None)))) elems))
   \<and> ((\<forall>ys. map_of fs ''date'' \<noteq> Some (JArr ys)) \<and> (\<forall>ps. map_of fs ''date'' \<noteq> Some (JObj ps)) \<longrightarrow>
        (\<exists>d. newDateFrom eng (getProp (JObj fs) ''date'') = Inr d))
   \<and> (map_of fs ''date'' = None \<longrightarrow>
        reviveExpense eng (JObj fs) =
          Inr (VObj (map (map_prod id ofJSON) fs @ [(''date'', VDate None)])))
   \<and> (map_of fs ''date'' = Some (JStr str) \<and> Date_parse eng str = None \<longrightarrow>
        reviveExpense eng (JObj fs) =
          Inr (VObj (setProp (map (map_prod id ofJSON) fs) ''date'' (VDate None))))"
proof (intro conjI impI)
  assume "s \<noteq> [] \<and> parseExpenses eng s = Inr xs"
  then show "loadExpenses eng (Some s) initialStore = \<lparr> expenses = xs, console = [] \<rparr>"
    by (intro loadExpenses_Inr) simp_all
next
  assume h: "JSON_parse eng s = Inr (JArr elems)
       \<and> (\<forall>e\<in>set elems. e \<noteq> JNull \<and> (\<exists>d. newDateFrom eng (getProp e ''date'') = Inr d))"
  have "mapE (reviveExpense eng) elems =
        Inr (map (\<lambda>e. VObj (setProp (spread e) ''date''
                   (VDate (case newDateFrom eng (getProp e ''date'') of
                             Inr d \<Rightarrow> d | Inl err \<Rightarrow> None)))) elems)"
  proof (rule mapE_all_Inr)
    fix e assume "e \<in> set elems"
    then obtain d where d: "e \<noteq> JNull" "newDateFrom eng (getProp e ''date'') = Inr d"
      using h by blast
    show "reviveExpense eng e = Inr (VObj (setProp (spread e) ''date''
                   (VDate (case newDateFrom eng (getProp e ''date'') of
                             Inr d \<Rightarrow> d | Inl err \<Rightarrow> None))))"
      using d by (cases e) (simp_all add: reviveExpense_def)
  qed
  then show "parseExpenses eng s =
        Inr (map (\<lambda>e. VObj (setProp (spread e) ''date''
                   (VDate (case newDateFrom eng (getProp e ''date'') of
                             Inr d \<Rightarrow> d | Inl err \<Rightarrow> None)))) elems)"
    using h by (simp add: parseExpenses_def)
next
  assume p: "(\<forall>ys. map_of fs ''date'' \<noteq> Some (JArr ys)) \<and> (\<forall>ps. map_of fs ''date'' \<noteq> Some (JObj ps))"
  show "\<exists>d. newDateFrom eng (getProp (JObj fs) ''date'') = Inr d"
  proof (cases "map_of fs ''date''")
    case None
    then show ?thesis by (simp add: newDateFrom_def getProp_def)
  next
    case (Some j)
    then show ?thesis using p by (cases j) (simp_all add: newDateFrom_def getProp_def)
  qed
next
  assume "map_of fs ''date'' = None"
  then show "reviveExpense eng (JObj fs) =
          Inr (VObj (map (map_prod id ofJSON) fs @ [(''date'', VDate None)]))"
    by (rule reviveExpense_missing_date)
next
  assume "map_of fs ''date'' = Some (JStr str) \<and> Date_parse eng str = None"
  then show "reviveExpense eng (JObj fs) =
          Inr (VObj (setProp (map (map_prod id ofJSON) fs) ''date'' (VDate None)))"
    using reviveExpense_string_date[of fs str eng] by simp
qed

text \<open>
  A stored array of one object that has only an amount and one object whose date
  is the string \<^verbatim>\<open>soon\<close> is loaded as two records, both with the invalid date.
\<close>

theorem loadExpenses_no_validation_witness:
  "''stored text'' \<noteq> []
   \<and> loadExpenses
       (exampleEngine (Inr (JArr [JObj [(''amount'', JNum (Finite 5))], JObj [(''date'', JStr ''soon'')]]))
          [] 0 [])
       (Some ''stored text'') initialStore
     = \<lparr> expenses = [VObj [(''amount'', VNum (Finite 5)), (''date'', VDate None)],
                      VObj [(''date'', VDate None)]],
         console = [] \<rparr>"
proof -
  define eng where "eng = exampleEngine
     (Inr (JArr [JObj [(''amount'', JNum (Finite 5))], JObj [(''date'', JStr ''soon'')]])) [] 0 []"
  have p: "parseExpenses eng ''stored text'' =
      Inr [VObj [(''amount'', VNum (Finite 5)), (''date'', VDate None)], VObj [(''date'', VDate None)]]"
    by (simp add: eng_def parseExpenses_def exampleEngine_def reviveExpense_def getProp_def
        newDateFrom_def spread_def)
  show ?thesis
    using p loadExpenses_no_validation[of "''stored text''" eng] unfolding eng_def by simp
qed




section \<open>Purity of the queries\<close>

text \<open>
  C8: let the collection be the array at address \<open>a\<close> of the heap. A call of
  either query leaves every array that existed before the call as it was, the
  collection among them, and returns a newly created array that holds the result of
  the query. A second call with the same arguments, on the heap that the first call
  left, again changes no existing array and returns another new array with the same
  contents as the first result.
\<close>

theorem queries_pure:
  "a < length h \<and> h ! a = ExpenseArray es \<longrightarrow>
     (let (r1, h1) = getFilteredExpensesH tz now h a f cs ps;
          (r2, h2) = getFilteredExpensesH tz now h1 a f cs ps
      in take (length h) h1 = h \<and> take (length h1) h2 = h1
         \<and> h1 ! a = ExpenseArray es \<and> h2 ! a = ExpenseArray es
         \<and> length h \<le> r1 \<and> r1 < length h1 \<and> length h1 \<le> r2 \<and> r2 < length h2
         \<and> h1 ! r1 = ExpenseArray (getFilteredExpenses tz now es f cs ps)
         \<and> h2 ! r2 = h1 ! r1)
     \<and> (let (r1, h1) = getMonthlyExpensesByCategoryH tz h a;
          (r2, h2) = getMonthlyExpensesByCategoryH tz h1 a
      in take (length h) h1 = h \<and> take (length h1) h2 = h1
         \<and> h1 ! a = ExpenseArray es \<and> h2 ! a = ExpenseArray es
         \<and> length h \<le> r1 \<and> r1 < length h1 \<and> length h1 \<le> r2 \<and> r2 < length h2
         \<and> h1 ! r1 = MonthArray (getMonthlyExpensesByCategory tz es)
         \<and> h2 ! r2 = h1 ! r1)"
proof (intro impI conjI)
  assume h: "a < length h \<and> h ! a = ExpenseArray es"
  obtain r1 h1 where c1: "getFilteredExpensesH tz now h a f cs ps = (r1, h1)"
    by (cases "getFilteredExpensesH tz now h a f cs ps")
  have e1: "endsWith h (ExpenseArray (getFilteredExpenses tz now es f cs ps)) (r1, h1)"
    using getFilteredExpensesH_endsWith[of a h es tz now f cs ps] h unfolding c1 by simp
  have p1: "take (length h) h1 = h" "length h \<le> r1" "r1 < length h1"
    "h1 ! r1 = ExpenseArray (getFilteredExpenses tz now es f cs ps)"
    using endsWith_facts[OF e1] by simp_all
  have a1: "a < length h1" "h1 ! a = ExpenseArray es"
    using h p1(2,3) take_prefix_nth[OF p1(1), of a] by simp_all
  obtain r2 h2 where c2: "getFilteredExpensesH tz now h1 a f cs ps = (r2, h2)"
    by (cases "getFilteredExpensesH tz now h1 a f cs ps")
  have e2: "endsWith h1 (ExpenseArray (getFilteredExpenses tz now es f cs ps)) (r2, h2)"
    using getFilteredExpensesH_endsWith[OF a1, of tz now f cs ps] unfolding c2 by simp
  have p2: "take (length h1) h2 = h1" "length h1 \<le> r2" "r2 < length h2"
    "h2 ! r2 = ExpenseArray (getFilteredExpenses tz now es f cs ps)"
    using endsWith_facts[OF e2] by simp_all
  have a2: "h2 ! a = ExpenseArray es"
    using a1 take_prefix_nth[OF p2(1), of a] by simp
  show "let (r1, h1) = getFilteredExpensesH tz now h a f cs ps;
          (r2, h2) = getFilteredExpensesH tz now h1 a f cs ps
      in take (length h) h1 = h \<and> take (length h1) h2 = h1
         \<and> h1 ! a = ExpenseArray es \<and> h2 ! a = ExpenseArray es
         \<and> length h \<le> r1 \<and> r1 < length h1 \<and> length h1 \<le> r2 \<and> r2 < length h2
         \<and> h1 ! r1 = ExpenseArray (getFilteredExpenses tz now es f cs ps)
         \<and> h2 ! r2 = h1 ! r1"
    unfolding c1 Let_def prod.case c2 using p1 p2 a1 a2 by simp
next
  assume h: "a < length h \<and> h ! a = ExpenseArray es"
  obtain r1 h1 where c1: "getMonthlyExpensesByCategoryH tz h a = (r1, h1)"
    by (cases "getMonthlyExpensesByCategoryH tz h a")
  have e1: "endsWith h (MonthArray (getMonthlyExpensesByCategory tz es)) (r1, h1)"
    using getMonthlyExpensesByCategoryH_endsWith[of a h es tz] h unfolding c1 by simp
  have p1: "take (length h) h1 = h" "length h \<le> r1" "r1 < length h1"
    "h1 ! r1 = MonthArray (getMonthlyExpensesByCategory tz es)"
    using endsWith_facts[OF e1] by simp_all
  have a1: "a < length h1" "h1 ! a = ExpenseArray es"
    using h p1(2,3) take_prefix_nth[OF p1(1), of a] by simp_all
  obtain r2 h2 where c2: "getMonthlyExpensesByCategoryH tz h1 a = (r2, h2)"
    by (cases "getMonthlyExpensesByCategoryH tz h1 a")
  have e2: "endsWith h1 (MonthArray (getMonthlyExpensesByCategory tz es)) (r2, h2)"
    using getMonthlyExpensesByCategoryH_endsWith[OF a1, of tz] unfolding c2 by simp
  have p2: "take (length h1) h2 = h1" "length h1 \<le> r2" "r2 < length h2"
    "h2 ! r2 = MonthArray (getMonthlyExpensesByCategory tz es)"
    using endsWith_facts[OF e2] by simp_all
  have a2: "h2 ! a = ExpenseArray es"
    using a1 take_prefix_nth[OF p2(1), of a] by simp
  show "let (r1, h1) = getMonthlyExpensesByCategoryH tz h a;
          (r2, h2) = getMonthlyExpensesByCategoryH tz h1 a
      in take (length h) h1 = h \<and> take (length h1) h2 = h1
         \<and> h1 ! a = ExpenseArray es \<and> h2 ! a = ExpenseArray es
         \<and> length h \<le> r1 \<and> r1 < length h1 \<and> length h1 \<le> r2 \<and> r2 < length h2
         \<and> h1 ! r1 = MonthArray (getMonthlyExpensesByCategory tz es)
         \<and> h2 ! r2 = h1 ! r1"
    unfolding c1 Let_def prod.case c2 using p1 p2 a1 a2 by simp
qed

text \<open>
  On a heap that holds only the collection, with one record and the filter ``All
  time'': the first call creates the array at address 1, the second the array at
  address 2, both with the one record, and the collection at address 0 stays.
\<close>

theorem queries_pure_witness:
  "(0::nat) < length [ExpenseArray [\<lparr> amount = Finite 100, category = Groceries, notes' = ''milk'',
        date = Some 1705276800000, paymentMode = Cash, expenseId = ''a'' \<rparr>]]
   \<and> getFilteredExpensesH utc 1710028800000
        [ExpenseArray [\<lparr> amount = Finite 100, category = Groceries, notes' = ''milk'',
           date = Some 1705276800000, paymentMode = Cash, expenseId = ''a'' \<rparr>]] 0 AllTime [] []
      = (1, [ExpenseArray [\<lparr> amount = Finite 100, category = Groceries, notes' = ''milk'',
               date = Some 1705276800000, paymentMode = Cash, expenseId = ''a'' \<rparr>],
             ExpenseArray [\<lparr> amount = Finite 100, category = Groceries, notes' = ''milk'',
               date = Some 1705276800000, paymentMode = Cash, expenseId = ''a'' \<rparr>]])
   \<and> fst (getFilteredExpensesH utc 1710028800000
        (snd (getFilteredExpensesH utc 1710028800000
           [ExpenseArray [\<lparr> amount = Finite 100, category = Groceries, notes' = ''milk'',
              date = Some 1705276800000, paymentMode = Cash, expenseId = ''a'' \<rparr>]] 0 AllTime [] []))
        0 AllTime [] []) = 2
   \<and> snd (getFilteredExpensesH utc 1710028800000
        (snd (getFilteredExpensesH utc 1710028800000
           [ExpenseArray [\<lparr> amount = Finite 100, category = Groceries, notes' = ''milk'',
              date = Some 1705276800000, paymentMode = Cash, expenseId = ''a'' \<rparr>]] 0 AllTime [] []))
        0 AllTime [] []) ! 2
      = ExpenseArray [\<lparr> amount = Finite 100, category = Groceries, notes' = ''milk'',
          date = Some 1705276800000, paymentMode = Cash, expenseId = ''a'' \<rparr>]"
proof -
  define e :: Expense where "e = \<lparr> amount = Finite 100, category = Groceries, notes' = ''milk'',
        date = Some 1705276800000, paymentMode = Cash, expenseId = ''a'' \<rparr>"
  have c1: "getFilteredExpensesH utc 1710028800000 [ExpenseArray [e]] 0 AllTime [] []
      = (1, [ExpenseArray [e], ExpenseArray [e]])"
    by (simp add: getFilteredExpensesH_def alloc_def expensesAt_def)
  have c2: "getFilteredExpensesH utc 1710028800000 [ExpenseArray [e], ExpenseArray [e]] 0 AllTime [] []
      = (2, [ExpenseArray [e], ExpenseArray [e], ExpenseArray [e]])"
    by (simp add: getFilteredExpensesH_def alloc_def expensesAt_def)
  have "[ExpenseArray [e], ExpenseArray [e], ExpenseArray [e]] ! 2 =
      [ExpenseArray [e], ExpenseArray [e]] ! 1"
    using queries_pure[of 0 "[ExpenseArray [e]]" "[e]" utc 1710028800000 AllTime "[]" "[]"]
    unfolding c1 Let_def prod.case c2 by simp
  then show ?thesis unfolding e_def[symmetric] c1 snd_conv c2 fst_conv by simp
qed

end
